theory Spec2Isabelle
  imports Complex_Main
begin

section \<open>Numbers, coordinates and the random source\<close>

text \<open>
  The TypeScript sources compute on \<open>number\<close>. Coordinates, distances, speeds and the
  fatigue factor are modelled as \<open>real\<close>; simulated times and counters, which the code only
  ever changes by whole steps, as \<open>int\<close>; array positions as \<open>nat\<close>. The special values
  \<open>Infinity\<close> used as "no candidate yet" are modelled by \<open>None\<close>.

  A \<open>LatLngTuple\<close> is \<open>[lat, lng]\<close>; a Leaflet \<open>LatLng\<close> object carries the same two numbers.
\<close>

type_synonym LatLngTuple = "real \<times> real"

text \<open>
  The environment of a run: the stream of values \<open>Math.random()\<close> returns, the text
  \<open>generateUniqueId\<close> appends to a prefix (it depends on the clock and on a random draw),
  Leaflet's \<open>distanceTo\<close> in metres, and the bounds Leaflet computes for the region polygon.
\<close>

record Env =
  rnd :: "nat \<Rightarrow> real"
  idSuffix :: "nat \<Rightarrow> string"
  distanceTo :: "LatLngTuple \<Rightarrow> LatLngTuple \<Rightarrow> real"
  getSouth :: real
  getNorth :: real
  getWest :: real
  getEast :: real

text \<open>\<open>Math.random()\<close> returns a number in \<open>[0, 1)\<close>; the \<open>k\<close>-th call reads position \<open>k\<close>.\<close>

definition Math_random :: "Env \<Rightarrow> nat \<Rightarrow> real" where
  "Math_random E k = (let r = rnd E k in if 0 \<le> r \<and> r < 1 then r else 0)"

text \<open>\<open>generateUniqueId(prefix)\<close>: one random draw; returns the id and the next position.\<close>

definition generateUniqueId :: "Env \<Rightarrow> string \<Rightarrow> nat \<Rightarrow> string \<times> nat" where
  "generateUniqueId E prefix k = (prefix @ idSuffix E k, k + 1)"

section \<open>mapUtils\<close>

definition defaultDarkStoreLocationSim :: LatLngTuple where
  "defaultDarkStoreLocationSim = (30.7333, 76.7794)"

text \<open>
  The exterior ring of \<open>ccrGeoJsonPolygon\<close>, as the data file writes it (GeoJSON order,
  longitude first). \<open>getRandomPointInCcr\<close> passes it to \<open>isPointInPolygon\<close> under the cast
  \<open>as LatLngTuple[]\<close>, so the pairs are read there as \<open>[lat, lng]\<close>.
\<close>

definition ccrRing :: "LatLngTuple list" where
  "ccrRing = [(76.65, 30.85), (76.9, 30.85), (76.9, 30.6), (76.65, 30.6), (76.65, 30.85)]"

definition atan2 :: "real \<Rightarrow> real \<Rightarrow> real" where
  "atan2 y x =
     (if 0 < x then arctan (y / x)
      else if x < 0 \<and> 0 \<le> y then arctan (y / x) + pi
      else if x < 0 then arctan (y / x) - pi
      else if 0 < y then pi / 2
      else if y < 0 then - (pi / 2)
      else 0)"

definition getDistanceKm :: "LatLngTuple \<Rightarrow> LatLngTuple \<Rightarrow> real" where
  "getDistanceKm latlng1 latlng2 =
     (let R = 6371;
          lat1 = fst latlng1; lon1 = snd latlng1;
          lat2 = fst latlng2; lon2 = snd latlng2;
          dLat = (lat2 - lat1) * pi / 180;
          dLon = (lon2 - lon1) * pi / 180;
          a = sin (dLat / 2) * sin (dLat / 2) +
              cos (lat1 * pi / 180) * cos (lat2 * pi / 180) *
              sin (dLon / 2) * sin (dLon / 2);
          c = 2 * atan2 (sqrt a) (sqrt (1 - a))
      in R * c)"

text \<open>
  \<open>isPointInPolygon\<close>: the loop \<open>for (i = 0, j = n - 1; i < n; j = i++)\<close>. The recursion
  walks the vertices; \<open>vj\<close> is the vertex of the previous round (the last one at the start).
  The division is only evaluated when \<open>yi \<noteq> yj\<close>, as with JavaScript's \<open>&&\<close>.
\<close>

fun pipLoop :: "LatLngTuple \<Rightarrow> LatLngTuple list \<Rightarrow> LatLngTuple \<Rightarrow> bool \<Rightarrow> bool" where
  "pipLoop point [] vj inside = inside"
| "pipLoop point (vi # rest) vj inside =
     (let x = snd point; y = fst point;
          xi = snd vi; yi = fst vi;
          xj = snd vj; yj = fst vj;
          intersect = (((yi > y) \<noteq> (yj > y)) \<and> x < (xj - xi) * (y - yi) / (yj - yi) + xi)
      in pipLoop point rest vi (if intersect then \<not> inside else inside))"

definition isPointInPolygon :: "LatLngTuple \<Rightarrow> LatLngTuple list \<Rightarrow> bool" where
  "isPointInPolygon point polygonCoords =
     (case polygonCoords of [] \<Rightarrow> False
      | _ # _ \<Rightarrow> pipLoop point polygonCoords (last polygonCoords) False)"

text \<open>\<open>generateWaypoints(start, end)\<close> with the default \<open>numWaypoints = 2\<close>.\<close>

definition generateWaypoints :: "LatLngTuple \<Rightarrow> LatLngTuple \<Rightarrow> LatLngTuple list" where
  "generateWaypoints startLatLng endLatLng =
     (let waypoint = (\<lambda>i::nat. let t = real i / 3 in
            (fst startLatLng + (fst endLatLng - fst startLatLng) * t,
             snd startLatLng + (snd endLatLng - snd startLatLng) * t))
      in [startLatLng] @ map waypoint [1, 2] @ [endLatLng])"

definition MAX_ATTEMPTS :: nat where
  "MAX_ATTEMPTS = 200"

text \<open>
  \<open>getRandomPointInCcr\<close>: the \<open>do \<dots> while\<close> loop. \<open>attempts\<close> is the counter before the
  round, \<open>k\<close> the position in the random stream. A round draws two numbers, counts the
  attempt, returns the default location when the counter has passed \<open>MAX_ATTEMPTS\<close>, and
  otherwise tests the point. The result is the point and the next stream position.
\<close>

function ccrLoop :: "Env \<Rightarrow> nat \<Rightarrow> nat \<Rightarrow> LatLngTuple \<times> nat" where
  "ccrLoop E attempts k =
     (let point = (Math_random E k * (getNorth E - getSouth E) + getSouth E,
                   Math_random E (k + 1) * (getEast E - getWest E) + getWest E);
          attempts' = attempts + 1
      in if attempts' > MAX_ATTEMPTS then (defaultDarkStoreLocationSim, k + 2)
         else if \<not> isPointInPolygon point ccrRing then ccrLoop E attempts' (k + 2)
         else (point, k + 2))"
  by pat_completeness auto
termination
  by (relation "measure (\<lambda>(E, attempts, k). Suc MAX_ATTEMPTS - attempts)") auto

declare ccrLoop.simps [simp del]

definition getRandomPointInCcr :: "Env \<Rightarrow> nat \<Rightarrow> LatLngTuple \<times> nat" where
  "getRandomPointInCcr E k = ccrLoop E 0 k"

definition getRandomPointNearHotspot :: "Env \<Rightarrow> LatLngTuple \<Rightarrow> real \<Rightarrow> nat \<Rightarrow> LatLngTuple \<times> nat" where
  "getRandomPointNearHotspot E center radiusKm k =
     (let R_EARTH_KM = 6371;
          y0 = fst center; x0 = snd center;
          rd = radiusKm / R_EARTH_KM;
          u = Math_random E k;
          v = Math_random E (k + 1);
          w = rd * sqrt u;
          t = 2 * pi * v;
          x = w * cos t;
          y = w * sin t;
          newLon = x / cos (y0 * pi / 180);
          point = (y0 + (y * 180 / pi), x0 + (newLon * 180 / pi))
      in if \<not> isPointInPolygon point ccrRing then getRandomPointInCcr E (k + 2)
         else (point, k + 2))"

section \<open>Data model (types.ts, ccrData.ts)\<close>

datatype AgentStatus = available | to_store | at_store | to_customer | busy

datatype OrderStatus = pending | assigned | picked_up | delivered | cancelled

text \<open>
  \<open>Agent\<close> and \<open>Order\<close>. Both interfaces have fields \<open>id\<close>, \<open>lat\<close>, \<open>lng\<close> and
  \<open>status\<close>; the agent's are written \<open>aid\<close>, \<open>alat\<close>, \<open>alng\<close>, \<open>astatus\<close> and the order's
  \<open>oid\<close>, \<open>olat\<close>, \<open>olng\<close>, \<open>ostatus\<close>. A field of type \<open>T | null\<close> is a \<open>T option\<close>.
  The optional marker fields and the fields of the optimisation run are not part of the
  simulation state and are left out.
\<close>

record Agent =
  aid :: string
  alat :: real
  alng :: real
  astatus :: AgentStatus
  currentOrder :: "string option"
  routePath :: "LatLngTuple list"
  legProgress :: real
  currentLegIndex :: nat
  fatigueFactor :: real
  consecutiveDeliveriesSinceRest :: int
  timeContinuouslyActive :: int
  totalDistance :: real
  deliveriesCompleted :: int
  timeSpentIdle :: int
  timeSpentDelivering :: int
  timeSpentAtStore :: int

record Order =
  oid :: string
  olat :: real
  olng :: real
  timePlaced :: int
  ostatus :: OrderStatus
  assignedAgentId :: "string option"
  storeArrivalTime :: "int option"
  customerArrivalTime :: "int option"
  deliveryTime :: "int option"

text \<open>
  A demand zone: the base fields and, per \<open>type\<close>, the fields of that variant. The code
  guards \<open>zone.center\<close> and \<open>zone.routePath\<close> against being absent, so both are options.
\<close>

datatype ZoneShape =
    uniform_ccr
  | hotspot "LatLngTuple option" real
  | sector "string list"
  | route "LatLngTuple list option" real

record DemandZone =
  shape :: ZoneShape
  minOrders :: real
  maxOrders :: real
  startTime :: real
  endTime :: real

record CustomDemandProfile =
  pid :: string
  zones :: "DemandZone list"

record HeatmapDataPoint =
  hlat :: real
  hlng :: real
  hcount :: int

text \<open>
  \<open>SimulationState\<close>, with the fields the simulation step reads or writes. The cooldown
  stamps of the advisory requests and the two unused generation settings are left out.
\<close>

record SimulationState =
  isRunning :: bool
  agents :: "Agent list"
  orders :: "Order list"
  orderIdCounter :: nat
  agentIdCounter :: nat
  currentSimulationTime :: int
  currentDynamicTrafficFactor :: real
  totalOrdersGenerated :: int
  totalOrdersDelivered :: int
  totalDeliveryTime :: int
  totalAgentTravelDistance :: real
  totalAgentActiveTime :: int
  darkStoreLocations :: "LatLngTuple list"

record SimParams =
  numAgents :: nat
  agentSpeedKmph :: real
  orderGenProfileId :: string
  baseTrafficFactor :: real
  enableDynamicTraffic :: bool

definition MINUTES_PER_SIMULATION_STEP :: int where
  "MINUTES_PER_SIMULATION_STEP = 5"

definition DYNAMIC_TRAFFIC_UPDATE_INTERVAL_STEPS :: int where
  "DYNAMIC_TRAFFIC_UPDATE_INTERVAL_STEPS = 12"

definition ccrSectors :: "(string \<times> LatLngTuple) list" where
  "ccrSectors =
    [(''Sector 1'', (30.7497, 76.7939)),
     (''Sector 7'', (30.7452, 76.7852)),
     (''Sector 8'', (30.742, 76.7805)),
     (''Sector 9'', (30.7387, 76.7758)),
     (''Sector 10'', (30.7355, 76.7711)),
     (''Sector 11'', (30.7322, 76.7664)),
     (''Sector 17 (City Center)'', (30.74, 76.778)),
     (''Sector 22 (ISBT)'', (30.735, 76.77)),
     (''Sector 26 (Grain Mkt)'', (30.737, 76.8)),
     (''Sector 32 (GMCH)'', (30.715, 76.775)),
     (''Sector 34 (Comp. Mkt)'', (30.729, 76.781)),
     (''Sector 35'', (30.736, 76.784)),
     (''Sector 43 (ISBT)'', (30.725, 76.76)),
     (''Industrial Area Ph 1'', (30.715, 76.815)),
     (''Manimajra'', (30.73, 76.83)),
     (''Mohali Phase 3B2'', (30.708, 76.720)),
     (''Mohali Phase 7'', (30.705, 76.715)),
     (''Mohali Sector 70'', (30.702, 76.730)),
     (''Mohali IT Park (Sec 66/82)'', (30.685, 76.735)),
     (''Panchkula Sector 5'', (30.692, 76.855)),
     (''Panchkula Sector 11'', (30.705, 76.850)),
     (''Panchkula Ind. Area Ph 1'', (30.715, 76.860)),
     (''Zirakpur VIP Road'', (30.647, 76.825)),
     (''Zirakpur Patiala Chowk'', (30.630, 76.815)),
     (''New Chandigarh/Mullanpur'', (30.790, 76.700))]"

section \<open>Array helpers\<close>

text \<open>\<open>Array.prototype.findIndex\<close>: the first position that satisfies the test, if any.\<close>

fun findIndex :: "('a \<Rightarrow> bool) \<Rightarrow> 'a list \<Rightarrow> nat option" where
  "findIndex P [] = None"
| "findIndex P (x # xs) =
     (if P x then Some 0 else (case findIndex P xs of None \<Rightarrow> None | Some i \<Rightarrow> Some (Suc i)))"

text \<open>\<open>xs[Math.floor(r * xs.length)] || d\<close> for a draw \<open>r\<close> in \<open>[0, 1)\<close>.\<close>

definition pickOr :: "'a list \<Rightarrow> real \<Rightarrow> 'a \<Rightarrow> 'a" where
  "pickOr xs r d =
     (let i = nat \<lfloor>r * real (length xs)\<rfloor> in if i < length xs then xs ! i else d)"

text \<open>The decimal text of a counter, as the template literal \<open>`O${n}_`\<close> prints it.\<close>

fun digitsOf :: "nat \<Rightarrow> string" where
  "digitsOf n =
     (if n < 10 then [char_of (48 + n)] else digitsOf (n div 10) @ [char_of (48 + n mod 10)])"


declare digitsOf.simps [simp del]

section \<open>The demand generator (generateOrdersLogic)\<close>

record GenResult =
  newOrders :: "Order list"
  updatedOrderIdCounter :: nat
  totalGeneratedIncrement :: int
  nextRandom :: nat

definition newOrder :: "string \<Rightarrow> LatLngTuple \<Rightarrow> int \<Rightarrow> Order" where
  "newOrder i orderCoords currentTime =
     \<lparr>oid = i, olat = fst orderCoords, olng = snd orderCoords, timePlaced = currentTime,
      ostatus = pending, assignedAgentId = None, storeArrivalTime = None,
      customerArrivalTime = None, deliveryTime = None\<rparr>"

definition primaryDarkStoreOf :: "LatLngTuple list \<Rightarrow> LatLngTuple" where
  "primaryDarkStoreOf dsl = (case dsl of [] \<Rightarrow> defaultDarkStoreLocationSim | d # _ \<Rightarrow> d)"

text \<open>The point of a new order of a zone, by the zone's type; \<open>k\<close> is the stream position.\<close>

definition zoneOrderCoords :: "Env \<Rightarrow> ZoneShape \<Rightarrow> LatLngTuple \<Rightarrow> nat \<Rightarrow> LatLngTuple \<times> nat" where
  "zoneOrderCoords E sh relevantDarkStore k =
     (case sh of
        uniform_ccr \<Rightarrow> getRandomPointInCcr E k
      | hotspot center radius \<Rightarrow>
          getRandomPointNearHotspot E
            (case center of None \<Rightarrow> relevantDarkStore | Some c \<Rightarrow> c) radius k
      | sector sectors \<Rightarrow>
          (if length sectors > 0 then
             (let randomSectorName = sectors ! nat \<lfloor>Math_random E k * real (length sectors)\<rfloor>
              in case find (\<lambda>s. fst s = randomSectorName) ccrSectors of
                   Some sectorData \<Rightarrow> getRandomPointNearHotspot E (snd sectorData) 1.5 (k + 1)
                 | None \<Rightarrow> getRandomPointNearHotspot E relevantDarkStore 5 (k + 1))
           else getRandomPointNearHotspot E relevantDarkStore 5 k)
      | route rp buffer \<Rightarrow>
          (case rp of
             None \<Rightarrow> getRandomPointNearHotspot E relevantDarkStore 5 k
           | Some path \<Rightarrow>
               (if length path > 1 then
                  (let segIdx = nat \<lfloor>Math_random E k * real (length path - 1)\<rfloor>;
                       p1 = path ! segIdx; p2 = path ! (segIdx + 1);
                       t = Math_random E (k + 1);
                       mid = (fst p1 * (1 - t) + fst p2 * t, snd p1 * (1 - t) + snd p2 * t)
                   in getRandomPointNearHotspot E mid buffer (k + 2))
                else getRandomPointNearHotspot E relevantDarkStore 5 k)))"

text \<open>The body of \<open>profile.zones.forEach\<close> for one zone, on the running result.\<close>

definition genZone :: "Env \<Rightarrow> int \<Rightarrow> LatLngTuple list \<Rightarrow> DemandZone \<Rightarrow> GenResult \<Rightarrow> GenResult" where
  "genZone E currentTime dsl zone g =
     (if real_of_int currentTime \<ge> startTime zone * 60 \<and> real_of_int currentTime \<le> endTime zone * 60 then
        (let k = nextRandom g;
             ordersPerHour = minOrders zone + Math_random E k * (maxOrders zone - minOrders zone);
             ordersThisStep = ordersPerHour * (real_of_int MINUTES_PER_SIMULATION_STEP / 60)
         in if Math_random E (k + 1) < ordersThisStep then
              (let counter = updatedOrderIdCounter g + 1;
                   relevantDarkStore = pickOr dsl (Math_random E (k + 2)) (primaryDarkStoreOf dsl);
                   (orderCoords, k1) = zoneOrderCoords E (shape zone) relevantDarkStore (k + 3);
                   (i, k2) = generateUniqueId E (''O'' @ digitsOf counter @ ''_'') k1
               in \<lparr>newOrders = newOrders g @ [newOrder i orderCoords currentTime],
                   updatedOrderIdCounter = counter,
                   totalGeneratedIncrement = totalGeneratedIncrement g + 1,
                   nextRandom = k2\<rparr>)
            else g\<lparr>nextRandom := k + 2\<rparr>)
      else g)"

fun genZones :: "Env \<Rightarrow> int \<Rightarrow> LatLngTuple list \<Rightarrow> DemandZone list \<Rightarrow> GenResult \<Rightarrow> GenResult" where
  "genZones E currentTime dsl [] g = g"
| "genZones E currentTime dsl (zone # rest) g =
     genZones E currentTime dsl rest (genZone E currentTime dsl zone g)"

definition generateOrdersLogic ::
  "Env \<Rightarrow> nat \<Rightarrow> string \<Rightarrow> int \<Rightarrow> CustomDemandProfile list \<Rightarrow> LatLngTuple list \<Rightarrow> nat \<Rightarrow> GenResult" where
  "generateOrdersLogic E currentOrderIdCounter profileId currentTime customProfiles dsl k =
     (let g0 = \<lparr>newOrders = [], updatedOrderIdCounter = currentOrderIdCounter,
                 totalGeneratedIncrement = 0, nextRandom = k\<rparr>;
          primaryDarkStore = primaryDarkStoreOf dsl;
          baseOrderRate = 0.15;
          focusedRadiusKm = 5
      in if profileId = ''default_uniform_ccr'' \<or> profileId = ''default_focused_ccr'' then
           (if Math_random E k < baseOrderRate then
              (let counter = currentOrderIdCounter + 1;
                   (orderCoords, k1) =
                     (if profileId = ''default_uniform_ccr'' then getRandomPointInCcr E (k + 1)
                      else getRandomPointNearHotspot E primaryDarkStore focusedRadiusKm (k + 1));
                   (i, k2) = generateUniqueId E (''O'' @ digitsOf counter @ ''_'') k1
               in \<lparr>newOrders = [newOrder i orderCoords currentTime],
                   updatedOrderIdCounter = counter,
                   totalGeneratedIncrement = 1,
                   nextRandom = k2\<rparr>)
            else g0\<lparr>nextRandom := k + 1\<rparr>)
         else
           (case find (\<lambda>p. pid p = profileId) customProfiles of
              Some profile \<Rightarrow> genZones E currentTime dsl (zones profile) g0
            | None \<Rightarrow> g0))"

section \<open>The dispatch assigner (assignOrdersToAgentsLogic)\<close>

text \<open>
  The serving store of an order: the loop over \<open>darkStoreLocations\<close> keeps the closest
  distance and the store together, replacing them only on a strictly smaller distance.
\<close>

fun closestDsLoop :: "LatLngTuple list \<Rightarrow> LatLngTuple \<Rightarrow> (LatLngTuple \<times> real) option \<Rightarrow> (LatLngTuple \<times> real) option" where
  "closestDsLoop [] customer best = best"
| "closestDsLoop (dsLoc # rest) customer best =
     (let dist = getDistanceKm dsLoc customer
      in closestDsLoop rest customer
           (case best of
              None \<Rightarrow> Some (dsLoc, dist)
            | Some (b, closestDsDist) \<Rightarrow> if dist < closestDsDist then Some (dsLoc, dist) else best))"

definition bestDarkStoreForOrder :: "LatLngTuple list \<Rightarrow> Order \<Rightarrow> LatLngTuple" where
  "bestDarkStoreForOrder dsl order =
     (case closestDsLoop dsl (olat order, olng order) None of
        Some (b, d) \<Rightarrow> b
      | None \<Rightarrow> primaryDarkStoreOf dsl)"

definition effectiveSpeedOf :: "real \<Rightarrow> real \<Rightarrow> Agent \<Rightarrow> real" where
  "effectiveSpeedOf agentSpeed trafficFactor agent = agentSpeed * fatigueFactor agent * trafficFactor"

definition etaOf :: "real \<Rightarrow> real \<Rightarrow> LatLngTuple \<Rightarrow> Order \<Rightarrow> Agent \<Rightarrow> real" where
  "etaOf agentSpeed trafficFactor storeCoords order agent =
     (let agentCoords = (alat agent, alng agent);
          customerCoords = (olat order, olng order);
          distAgentToStore = getDistanceKm agentCoords storeCoords;
          distStoreToCustomer = getDistanceKm storeCoords customerCoords;
          effectiveSpeed = effectiveSpeedOf agentSpeed trafficFactor agent;
          timeAgentToStore = (distAgentToStore / effectiveSpeed) * 60;
          timeAtStore = 5;
          timeStoreToCustomer = (distStoreToCustomer / effectiveSpeed) * 60
      in timeAgentToStore + timeAtStore + timeStoreToCustomer)"

text \<open>
  An agent of the candidate pool is considered when the first agent with its id in the
  working list is still \<open>available\<close> and its effective speed exceeds 0.1 km/h.
\<close>

definition considered :: "Agent list \<Rightarrow> real \<Rightarrow> real \<Rightarrow> Agent \<Rightarrow> bool" where
  "considered modifiableAgents agentSpeed trafficFactor agent =
     (case find (\<lambda>a. aid a = aid agent) modifiableAgents of
        None \<Rightarrow> False
      | Some agentInModifiableList \<Rightarrow>
          astatus agentInModifiableList = available \<and>
          \<not> effectiveSpeedOf agentSpeed trafficFactor agent \<le> 0.1)"

text \<open>
  The loop over \<open>availableAgents\<close> for one order: \<open>bestAgent\<close> and \<open>minEta\<close> change together,
  on a strictly smaller estimate only.
\<close>

fun bestAgentLoop ::
  "Agent list \<Rightarrow> real \<Rightarrow> real \<Rightarrow> LatLngTuple \<Rightarrow> Order \<Rightarrow> Agent list \<Rightarrow> (Agent \<times> real) option \<Rightarrow> (Agent \<times> real) option" where
  "bestAgentLoop modifiableAgents agentSpeed trafficFactor storeCoords order [] best = best"
| "bestAgentLoop modifiableAgents agentSpeed trafficFactor storeCoords order (agent # rest) best =
     bestAgentLoop modifiableAgents agentSpeed trafficFactor storeCoords order rest
       (if \<not> considered modifiableAgents agentSpeed trafficFactor agent then best
        else
          (let eta = etaOf agentSpeed trafficFactor storeCoords order agent
           in case best of
                None \<Rightarrow> Some (agent, eta)
              | Some (b, minEta) \<Rightarrow> if eta < minEta then Some (agent, eta) else best))"

text \<open>\<open>splice(findIndex(\<dots>), 1)\<close>: drop the first element that satisfies the test.\<close>

fun removeFirst :: "('a \<Rightarrow> bool) \<Rightarrow> 'a list \<Rightarrow> 'a list" where
  "removeFirst P [] = []"
| "removeFirst P (x # xs) = (if P x then xs else x # removeFirst P xs)"

text \<open>
  The body of \<open>pendingOrders.forEach\<close> for one order, on the working lists and the
  candidate pool. The pool holds the agents that were available at the start; the loop
  reads their id, position and fatigue factor, which the assigner never changes.
\<close>

definition assignOrder ::
  "real \<Rightarrow> real \<Rightarrow> LatLngTuple list \<Rightarrow> Order \<Rightarrow> Agent list \<times> Order list \<times> Agent list \<Rightarrow> Agent list \<times> Order list \<times> Agent list" where
  "assignOrder agentSpeed trafficFactor dsl order st =
     (case st of (modifiableAgents, modifiableOrders, availableAgents) \<Rightarrow>
        (let storeForThisOrder = bestDarkStoreForOrder dsl order
         in case bestAgentLoop modifiableAgents agentSpeed trafficFactor storeForThisOrder order availableAgents None of
              None \<Rightarrow> st
            | Some (bestAgent, minEta) \<Rightarrow>
                (case (findIndex (\<lambda>x. oid x = oid order) modifiableOrders,
                       findIndex (\<lambda>a. aid a = aid bestAgent) modifiableAgents) of
                   (Some orderIndex, Some agentIndex) \<Rightarrow>
                     (modifiableAgents[agentIndex := (modifiableAgents ! agentIndex)
                          \<lparr>astatus := to_store,
                           currentOrder := Some (oid order),
                           routePath :=
                             generateWaypoints (alat bestAgent, alng bestAgent) storeForThisOrder @
                             drop 1 (generateWaypoints storeForThisOrder (olat order, olng order)),
                           currentLegIndex := 0,
                           legProgress := 0\<rparr>],
                      modifiableOrders[orderIndex := (modifiableOrders ! orderIndex)
                          \<lparr>ostatus := assigned, assignedAgentId := Some (aid bestAgent)\<rparr>],
                      removeFirst (\<lambda>a. aid a = aid bestAgent) availableAgents)
                 | _ \<Rightarrow> st)))"

fun assignLoop ::
  "real \<Rightarrow> real \<Rightarrow> LatLngTuple list \<Rightarrow> Order list \<Rightarrow> Agent list \<times> Order list \<times> Agent list \<Rightarrow> Agent list \<times> Order list \<times> Agent list" where
  "assignLoop agentSpeed trafficFactor dsl [] st = st"
| "assignLoop agentSpeed trafficFactor dsl (order # rest) st =
     assignLoop agentSpeed trafficFactor dsl rest (assignOrder agentSpeed trafficFactor dsl order st)"

definition assignOrdersToAgentsLogic ::
  "Agent list \<Rightarrow> Order list \<Rightarrow> real \<Rightarrow> real \<Rightarrow> LatLngTuple list \<Rightarrow> Agent list \<times> Order list" where
  "assignOrdersToAgentsLogic currentAgents currentOrders agentSpeed trafficFactor dsl =
     (let pendingOrders = filter (\<lambda>x. ostatus x = pending) currentOrders;
          availableAgents = filter (\<lambda>a. astatus a = available) currentAgents
      in if length pendingOrders = 0 \<or> length availableAgents = 0 then (currentAgents, currentOrders)
         else (case assignLoop agentSpeed trafficFactor dsl pendingOrders
                      (currentAgents, currentOrders, availableAgents) of
                 (updatedAgents, updatedOrders, pool) \<Rightarrow> (updatedAgents, updatedOrders)))"


section \<open>The movement and delivery engine (updateAgentsMovementAndStatusLogic)\<close>

text \<open>
  The \<open>while\<close> loop that walks an agent along its route with the distance of this step.
  A round either moves to the next leg or uses the distance up; in the second case the
  loop condition fails at once, so the agent is returned.
\<close>

function walkLegs :: "Env \<Rightarrow> Agent \<Rightarrow> real \<Rightarrow> Agent" where
  "walkLegs E agent remainingDistanceInStep =
     (if remainingDistanceInStep > 0 \<and> int (currentLegIndex agent) < int (length (routePath agent)) - 1 then
        (let startPoint = (alat agent, alng agent);
             endPointOfLeg = routePath agent ! (currentLegIndex agent + 1);
             legTotalDistanceKm = distanceTo E startPoint endPointOfLeg / 1000
         in if legTotalDistanceKm < 0.001 then
              (let agent' = agent\<lparr>currentLegIndex := currentLegIndex agent + 1, legProgress := 0\<rparr>
               in if int (currentLegIndex agent') \<ge> int (length (routePath agent')) - 1 then agent'
                  else walkLegs E agent' remainingDistanceInStep)
            else
              (let distanceToCoverOnThisLegKm = legTotalDistanceKm * (1 - legProgress agent)
               in if remainingDistanceInStep \<ge> distanceToCoverOnThisLegKm then
                    walkLegs E
                      (agent\<lparr>alat := fst endPointOfLeg, alng := snd endPointOfLeg,
                             currentLegIndex := currentLegIndex agent + 1, legProgress := 0\<rparr>)
                      (remainingDistanceInStep - distanceToCoverOnThisLegKm)
                  else
                    (let newLegProgress = legProgress agent + (remainingDistanceInStep / legTotalDistanceKm);
                         initialOnLeg = routePath agent ! currentLegIndex agent
                     in agent\<lparr>legProgress := newLegProgress,
                              alat := fst initialOnLeg + (fst endPointOfLeg - fst initialOnLeg) * newLegProgress,
                              alng := snd initialOnLeg + (snd endPointOfLeg - snd initialOnLeg) * newLegProgress\<rparr>)))
      else agent)"
  by pat_completeness auto
termination
  by (relation "measure (\<lambda>(E, agent, r). length (routePath agent) - currentLegIndex agent)") auto

declare walkLegs.simps [simp del]

record MoveAcc =
  updatedOrders :: "Order list"
  deliveredOrdersThisStep :: "Order list"
  totalDeliveryTimeIncrement :: int
  heatmapPointsToAdd :: "HeatmapDataPoint list"

text \<open>A string or null value counts as true when it is a non-empty string.\<close>

definition truthy :: "string option \<Rightarrow> bool" where
  "truthy v = (case v of None \<Rightarrow> False | Some t \<Rightarrow> t \<noteq> [])"

definition orderIndexOf :: "Order list \<Rightarrow> string option \<Rightarrow> nat option" where
  "orderIndexOf os cur = (case cur of None \<Rightarrow> None | Some c \<Rightarrow> findIndex (\<lambda>x. oid x = c) os)"

text \<open>
  The arrival check after the walk: the agent is at (or past) the last waypoint.
  The result carries \<open>agentActiveThisStep\<close>.
\<close>

definition arrival :: "int \<Rightarrow> LatLngTuple list \<Rightarrow> Agent \<Rightarrow> MoveAcc \<Rightarrow> (Agent \<times> bool) \<times> MoveAcc" where
  "arrival currentTime dsl agent acc =
     (if int (currentLegIndex agent) \<ge> int (length (routePath agent)) - 1 then
        (case orderIndexOf (updatedOrders acc) (currentOrder agent) of
           None \<Rightarrow>
             (if truthy (currentOrder agent) then
                ((agent\<lparr>astatus := available, currentOrder := None, routePath := []\<rparr>, False), acc)
              else ((agent, True), acc))
         | Some orderIndex \<Rightarrow>
             (let order = updatedOrders acc ! orderIndex
              in if astatus agent = to_store then
                   (let storeCoords = find (\<lambda>p. list_ex (\<lambda>d. fst d = fst p \<and> snd d = snd p) dsl) (routePath agent);
                        agent1 = agent\<lparr>astatus := at_store\<rparr>;
                        agent2 = (case storeCoords of
                                    Some sc \<Rightarrow> agent1\<lparr>alat := fst sc, alng := snd sc\<rparr>
                                  | None \<Rightarrow> agent1)
                    in ((agent2\<lparr>legProgress := 0\<rparr>, True),
                        acc\<lparr>updatedOrders := (updatedOrders acc)
                               [orderIndex := order\<lparr>storeArrivalTime := Some currentTime\<rparr>]\<rparr>))
                 else if astatus agent = to_customer then
                   (let order' = order\<lparr>ostatus := delivered,
                                       customerArrivalTime := Some currentTime,
                                       deliveryTime := Some (currentTime - timePlaced order)\<rparr>
                    in ((agent\<lparr>astatus := available, alat := olat order, alng := olng order,
                               deliveriesCompleted := deliveriesCompleted agent + 1,
                               consecutiveDeliveriesSinceRest := consecutiveDeliveriesSinceRest agent + 1,
                               currentOrder := None, routePath := []\<rparr>, False),
                        acc\<lparr>updatedOrders := (updatedOrders acc)[orderIndex := order'],
                            deliveredOrdersThisStep := deliveredOrdersThisStep acc @ [order'],
                            totalDeliveryTimeIncrement :=
                              totalDeliveryTimeIncrement acc + (currentTime - timePlaced order),
                            heatmapPointsToAdd := heatmapPointsToAdd acc @
                              [\<lparr>hlat = olat order, hlng = olng order, hcount = 1\<rparr>]\<rparr>))
                 else ((agent, True), acc)))
      else ((agent, True), acc))"

text \<open>The body of \<open>updatedAgents.forEach\<close> for one agent.\<close>

definition moveAgent :: "Env \<Rightarrow> real \<Rightarrow> real \<Rightarrow> int \<Rightarrow> LatLngTuple list \<Rightarrow> Agent \<Rightarrow> MoveAcc \<Rightarrow> Agent \<times> MoveAcc" where
  "moveAgent E agentSpeed trafficFactor currentTime dsl agent0 acc =
     (if astatus agent0 = available then
        (agent0\<lparr>timeSpentIdle := timeSpentIdle agent0 + MINUTES_PER_SIMULATION_STEP\<rparr>, acc)
      else
        (let agent = agent0\<lparr>timeContinuouslyActive := timeContinuouslyActive agent0 + MINUTES_PER_SIMULATION_STEP\<rparr>
         in if astatus agent = at_store then
              (let agent1 = agent\<lparr>timeSpentAtStore := timeSpentAtStore agent + MINUTES_PER_SIMULATION_STEP,
                                  legProgress := legProgress agent + real_of_int MINUTES_PER_SIMULATION_STEP\<rparr>;
                   HANDLING_TIME_AT_STORE = 5
               in if legProgress agent1 \<ge> HANDLING_TIME_AT_STORE then
                    (case orderIndexOf (updatedOrders acc) (currentOrder agent1) of
                       Some i \<Rightarrow>
                         (agent1\<lparr>astatus := to_customer, legProgress := 0\<rparr>,
                          acc\<lparr>updatedOrders := (updatedOrders acc)
                                 [i := (updatedOrders acc ! i)\<lparr>ostatus := picked_up\<rparr>]\<rparr>)
                     | None \<Rightarrow>
                         (agent1\<lparr>astatus := available, currentOrder := None, routePath := []\<rparr>, acc))
                  else (agent1, acc))
            else if length (routePath agent) = 0 \<or>
                    int (currentLegIndex agent) \<ge> int (length (routePath agent)) - 1 then (agent, acc)
            else
              (let agent1 = agent\<lparr>timeSpentDelivering := timeSpentDelivering agent + MINUTES_PER_SIMULATION_STEP\<rparr>;
                   effectiveSpeed = agentSpeed * fatigueFactor agent1 * trafficFactor
               in if effectiveSpeed \<le> 0.01 then (agent1, acc)
                  else
                    (let distanceCoveredThisStep = (effectiveSpeed / 60) * real_of_int MINUTES_PER_SIMULATION_STEP;
                         agent2 = agent1\<lparr>totalDistance := totalDistance agent1 + distanceCoveredThisStep\<rparr>;
                         agent3 = walkLegs E agent2 distanceCoveredThisStep
                     in case arrival currentTime dsl agent3 acc of
                          ((agent4, agentActiveThisStep), acc') \<Rightarrow>
                            (if \<not> agentActiveThisStep then agent4\<lparr>timeContinuouslyActive := 0\<rparr> else agent4,
                             acc')))))"

fun moveLoop :: "Env \<Rightarrow> real \<Rightarrow> real \<Rightarrow> int \<Rightarrow> LatLngTuple list \<Rightarrow> Agent list \<Rightarrow> MoveAcc \<Rightarrow> Agent list \<times> MoveAcc" where
  "moveLoop E agentSpeed trafficFactor currentTime dsl [] acc = ([], acc)"
| "moveLoop E agentSpeed trafficFactor currentTime dsl (agent # rest) acc =
     (case moveAgent E agentSpeed trafficFactor currentTime dsl agent acc of
        (agent', acc') \<Rightarrow>
          (case moveLoop E agentSpeed trafficFactor currentTime dsl rest acc' of
             (rest', acc'') \<Rightarrow> (agent' # rest', acc'')))"

definition updateAgentsMovementAndStatusLogic ::
  "Env \<Rightarrow> Agent list \<Rightarrow> Order list \<Rightarrow> real \<Rightarrow> real \<Rightarrow> int \<Rightarrow> LatLngTuple list \<Rightarrow> Agent list \<times> MoveAcc" where
  "updateAgentsMovementAndStatusLogic E currentAgents currentOrders agentSpeed trafficFactor currentTime dsl =
     moveLoop E agentSpeed trafficFactor currentTime dsl currentAgents
       \<lparr>updatedOrders = currentOrders, deliveredOrdersThisStep = [],
        totalDeliveryTimeIncrement = 0, heatmapPointsToAdd = []\<rparr>"

section \<open>The fatigue model (updateAgentFatigueLogic)\<close>

definition fatigueAgent :: "Agent \<Rightarrow> Agent" where
  "fatigueAgent agent =
     (let FATIGUE_THRESHOLD_DELIVERIES = 5;
          FATIGUE_THRESHOLD_TIME_MIN = 180;
          FATIGUE_RECOVERY_IDLE_TIME_MIN = 30;
          FATIGUE_FACTOR_REDUCTION = 0.15;
          FATIGUE_FACTOR_RECOVERY_RATE = 0.25
      in if astatus agent = available then
           (if fatigueFactor agent < 1.0 \<and> timeSpentIdle agent \<ge> FATIGUE_RECOVERY_IDLE_TIME_MIN then
              (let newFatigueFactor = min 1.0 (fatigueFactor agent + FATIGUE_FACTOR_RECOVERY_RATE)
               in if newFatigueFactor > fatigueFactor agent then
                    agent\<lparr>fatigueFactor := newFatigueFactor,
                          timeContinuouslyActive := 0,
                          consecutiveDeliveriesSinceRest := 0\<rparr>
                  else agent)
            else agent)
         else
           (let agent1 = agent\<lparr>timeSpentIdle := 0\<rparr>
            in if fatigueFactor agent1 > 0.5 then
                 (if consecutiveDeliveriesSinceRest agent1 \<ge> FATIGUE_THRESHOLD_DELIVERIES \<or>
                     timeContinuouslyActive agent1 \<ge> FATIGUE_THRESHOLD_TIME_MIN then
                    agent1\<lparr>fatigueFactor := max 0.5 (fatigueFactor agent1 - FATIGUE_FACTOR_REDUCTION),
                           consecutiveDeliveriesSinceRest := 0,
                           timeContinuouslyActive := 0\<rparr>
                  else agent1)
               else agent1))"

definition updateAgentFatigueLogic :: "Agent list \<Rightarrow> Agent list" where
  "updateAgentFatigueLogic currentAgents = map fatigueAgent currentAgents"


section \<open>The simulation clock (initialSimState, runSimulationStep)\<close>

text \<open>
  The agents of the initial state: agent \<open>i + 1\<close> draws its id, then its latitude, then its
  longitude. \<open>mkAgents E i m k\<close> builds \<open>m\<close> agents from index \<open>i\<close> on.
\<close>

fun mkAgents :: "Env \<Rightarrow> nat \<Rightarrow> nat \<Rightarrow> nat \<Rightarrow> Agent list" where
  "mkAgents E i 0 k = []"
| "mkAgents E i (Suc m) k =
     \<lparr>aid = fst (generateUniqueId E (''A'' @ digitsOf (i + 1) @ ''_'') k),
      alat = fst defaultDarkStoreLocationSim + (Math_random E (k + 1) - 0.5) * 0.002,
      alng = snd defaultDarkStoreLocationSim + (Math_random E (k + 2) - 0.5) * 0.002,
      astatus = available,
      currentOrder = None, routePath = [], legProgress = 0, currentLegIndex = 0,
      fatigueFactor = 1.0, consecutiveDeliveriesSinceRest = 0, timeContinuouslyActive = 0,
      totalDistance = 0, deliveriesCompleted = 0,
      timeSpentIdle = 0, timeSpentDelivering = 0, timeSpentAtStore = 0\<rparr>
     # mkAgents E (i + 1) m (k + 3)"

text \<open>\<open>clusteredDarkStores\<close> is given by the coordinates of its stores.\<close>

definition initialSimState :: "Env \<Rightarrow> nat \<Rightarrow> LatLngTuple list \<Rightarrow> SimulationState" where
  "initialSimState E n clusteredDarkStores =
     \<lparr>isRunning = False,
      agents = mkAgents E 0 n 0,
      orders = [],
      orderIdCounter = 0,
      agentIdCounter = n,
      currentSimulationTime = 0,
      currentDynamicTrafficFactor = 1.0,
      totalOrdersGenerated = 0, totalOrdersDelivered = 0, totalDeliveryTime = 0,
      totalAgentTravelDistance = 0, totalAgentActiveTime = 0,
      darkStoreLocations =
        (if length clusteredDarkStores > 0 then clusteredDarkStores
         else [defaultDarkStoreLocationSim])\<rparr>"

datatype JsError = TypeError

text \<open>
  One tick. The step reads the random stream of \<open>E\<close> from position 0. The only place that
  can throw is the distance sum over the delivered orders, which reads the first dark
  store: with orders delivered and no dark store the read fails.
\<close>

definition runSimulationStep ::
  "Env \<Rightarrow> SimParams \<Rightarrow> CustomDemandProfile list \<Rightarrow> SimulationState \<Rightarrow> JsError + SimulationState" where
  "runSimulationStep E P customDemandProfiles prevState =
     (if \<not> isRunning prevState then Inr prevState
      else
        (let t = currentSimulationTime prevState + MINUTES_PER_SIMULATION_STEP;
             dsl = darkStoreLocations prevState;
             refresh = (enableDynamicTraffic P \<and> t mod MINUTES_PER_SIMULATION_STEP = 0 \<and>
                        (t div MINUTES_PER_SIMULATION_STEP) mod DYNAMIC_TRAFFIC_UPDATE_INTERVAL_STEPS = 0);
             dyn = (if refresh then 0.6 + Math_random E 0 * 0.8
                    else currentDynamicTrafficFactor prevState);
             k = (if refresh then 1 else 0);
             gen = generateOrdersLogic E (orderIdCounter prevState) (orderGenProfileId P) t
                     customDemandProfiles dsl k;
             orders1 = orders prevState @ newOrders gen;
             trafficFactor = (if enableDynamicTraffic P then dyn else baseTrafficFactor P);
             (agentsAfterAssign, ordersAfterAssign) =
               assignOrdersToAgentsLogic (agents prevState) orders1 (agentSpeedKmph P) trafficFactor dsl;
             (agentsAfterMovement, acc) =
               updateAgentsMovementAndStatusLogic E agentsAfterAssign ordersAfterAssign
                 (agentSpeedKmph P) trafficFactor t dsl
         in case (deliveredOrdersThisStep acc, dsl) of
              (_ # _, []) \<Rightarrow> Inl TypeError
            | _ \<Rightarrow>
               (let totalDistanceThisStep =
                      (\<Sum>x \<leftarrow> deliveredOrdersThisStep acc.
                          getDistanceKm (primaryDarkStoreOf dsl) (olat x, olng x))
                in Inr (prevState
                     \<lparr>currentSimulationTime := t,
                      currentDynamicTrafficFactor := dyn,
                      orders := updatedOrders acc,
                      orderIdCounter := updatedOrderIdCounter gen,
                      totalOrdersGenerated := totalOrdersGenerated prevState + totalGeneratedIncrement gen,
                      totalOrdersDelivered :=
                        totalOrdersDelivered prevState + int (length (deliveredOrdersThisStep acc)),
                      totalDeliveryTime := totalDeliveryTime prevState + totalDeliveryTimeIncrement acc,
                      totalAgentTravelDistance := totalAgentTravelDistance prevState + totalDistanceThisStep,
                      agents := updateAgentFatigueLogic agentsAfterMovement\<rparr>))))"

text \<open>
  The states a session can be in: an initial state (first render, reset, or a change of
  the agent count while stopped), start and pause, and ticks under any parameters,
  profiles and environment (the parameters other than the agent count can be changed
  while paused without a new initial state).
\<close>

inductive reachable :: "SimulationState \<Rightarrow> bool" where
  init: "reachable (initialSimState E n clusteredDarkStores)"
| startSim: "reachable s \<Longrightarrow> reachable (s\<lparr>isRunning := True\<rparr>)"
| pauseSim: "reachable s \<Longrightarrow> reachable (s\<lparr>isRunning := False\<rparr>)"
| tick: "reachable s \<Longrightarrow> runSimulationStep E P customDemandProfiles s = Inr s' \<Longrightarrow> reachable s'"


section \<open>The optimization sweep (simplifiedSimulationRun, runOptimization)\<close>

definition BASE_HANDLING_TIME_MIN_OPT :: real where
  "BASE_HANDLING_TIME_MIN_OPT = 5"

record OptOrder =
  optId :: string
  optLat :: real
  optLng :: real
  optTimePlaced :: int
  optStatus :: OrderStatus
  optDeliveryTime :: "real option"

record OptAgent =
  availableAtTime :: real
  totalActiveTimeThisRun :: real
  distanceThisRun :: real

record SimplifiedSimRunStats =
  deliveredOrders :: nat
  totalDeliveryTimeRun :: real
  avgUtilization :: real
  ordersMeetingSLA :: nat
  generatedOrders :: nat
  totalDistanceKm :: real

text \<open>The running state of the generation loop: the orders, the two counters, the stream position.\<close>

record OptGen =
  gOrders :: "OptOrder list"
  gOrderIdCounter :: nat
  gGeneratedOrders :: nat
  gNext :: nat

text \<open>The expected count of one step for a profile: the sum over the zones in their window.\<close>

fun zonesThisStep :: "Env \<Rightarrow> int \<Rightarrow> DemandZone list \<Rightarrow> real \<times> nat \<Rightarrow> real \<times> nat" where
  "zonesThisStep E t_step [] acc = acc"
| "zonesThisStep E t_step (zone # rest) acc =
     zonesThisStep E t_step rest
       (case acc of (ordersThisStep, k) \<Rightarrow>
          if real_of_int t_step \<ge> startTime zone * 60 \<and> real_of_int t_step \<le> endTime zone * 60 then
            (let ordersPerHour = minOrders zone + Math_random E k * (maxOrders zone - minOrders zone)
             in (ordersThisStep + ordersPerHour * (real_of_int MINUTES_PER_SIMULATION_STEP / 60), k + 1))
          else acc)"

text \<open>The inner loop \<open>for (i = 0; i < ordersThisStep; i++)\<close>, for a whole number of rounds.\<close>

fun pushOrders :: "Env \<Rightarrow> LatLngTuple \<Rightarrow> int \<Rightarrow> nat \<Rightarrow> OptGen \<Rightarrow> OptGen" where
  "pushOrders E coords t_step 0 g = g"
| "pushOrders E coords t_step (Suc n) g =
     (let counter = gOrderIdCounter g + 1;
          (orderCoords, k') = getRandomPointNearHotspot E coords 5 (gNext g)
      in pushOrders E coords t_step n
           \<lparr>gOrders = gOrders g @
              [\<lparr>optId = ''OptO'' @ digitsOf counter, optLat = fst orderCoords, optLng = snd orderCoords,
                optTimePlaced = t_step, optStatus = pending, optDeliveryTime = None\<rparr>],
            gOrderIdCounter = counter,
            gGeneratedOrders = gGeneratedOrders g + 1,
            gNext = k'\<rparr>)"

definition genStep :: "Env \<Rightarrow> CustomDemandProfile option \<Rightarrow> string \<Rightarrow> LatLngTuple \<Rightarrow> int \<Rightarrow> OptGen \<Rightarrow> OptGen" where
  "genStep E profile demandProfileId coords t_step g =
     (let (ordersThisStep, k) =
            (case profile of
               Some p \<Rightarrow> zonesThisStep E t_step (zones p) (0, gNext g)
             | None \<Rightarrow>
                 (let baseOrderRate = (if demandProfileId = ''default_opt_peak_ccr'' then 0.6 else 0.25)
                  in (baseOrderRate * real_of_int MINUTES_PER_SIMULATION_STEP, gNext g)));
          rounded = (if Math_random E k < ordersThisStep - real_of_int \<lfloor>ordersThisStep\<rfloor>
                     then \<lceil>ordersThisStep\<rceil> else \<lfloor>ordersThisStep\<rfloor>)
      in pushOrders E coords t_step (nat rounded) (g\<lparr>gNext := k + 1\<rparr>))"

function genLoop :: "Env \<Rightarrow> CustomDemandProfile option \<Rightarrow> string \<Rightarrow> LatLngTuple \<Rightarrow> real \<Rightarrow> int \<Rightarrow> OptGen \<Rightarrow> OptGen" where
  "genLoop E profile demandProfileId coords maxSimTime t_step g =
     (if real_of_int t_step < maxSimTime then
        genLoop E profile demandProfileId coords maxSimTime (t_step + MINUTES_PER_SIMULATION_STEP)
          (genStep E profile demandProfileId coords t_step g)
      else g)"
  by pat_completeness auto
termination
  by (relation "measure (\<lambda>(E, profile, d, coords, maxSimTime, t_step, g). nat (\<lceil>maxSimTime\<rceil> - t_step))")
     (auto simp: MINUTES_PER_SIMULATION_STEP_def less_ceiling_iff)

declare genLoop.simps [simp del]

text \<open>The search for the earliest available agent: the first agent with the least time.\<close>

fun earliestLoop :: "OptAgent list \<Rightarrow> nat \<Rightarrow> (nat \<times> real) option \<Rightarrow> (nat \<times> real) option" where
  "earliestLoop [] index best = best"
| "earliestLoop (agent # rest) index best =
     earliestLoop rest (index + 1)
       (case best of
          None \<Rightarrow> Some (index, availableAtTime agent)
        | Some (earliestAgentIndex, earliestAvailableTime) \<Rightarrow>
            if availableAtTime agent < earliestAvailableTime then Some (index, availableAtTime agent)
            else best)"

record OptRun =
  currentTime :: real
  optAgents :: "OptAgent list"
  rDelivered :: nat
  rTotalDeliveryTime :: real
  rOrdersMeetingSLA :: nat
  rTotalDistanceKm :: real

text \<open>The event loop \<open>for (const order of orders)\<close>, with its \<open>break\<close> and its three \<open>continue\<close>s.\<close>

fun optLoop :: "LatLngTuple \<Rightarrow> real \<Rightarrow> real \<Rightarrow> OptOrder list \<Rightarrow> OptRun \<Rightarrow> OptRun" where
  "optLoop coords maxSimTime targetSLA [] r = r"
| "optLoop coords maxSimTime targetSLA (order # rest) r =
     (if currentTime r > maxSimTime then r
      else
        (case earliestLoop (optAgents r) 0 None of
           None \<Rightarrow> optLoop coords maxSimTime targetSLA rest r
         | Some (earliestAgentIndex, earliestAvailableTime) \<Rightarrow>
             (let agent = optAgents r ! earliestAgentIndex;
                  engagementTime = max (real_of_int (optTimePlaced order)) (availableAtTime agent)
              in if engagementTime > maxSimTime then optLoop coords maxSimTime targetSLA rest r
                 else
                   (let r1 = r\<lparr>currentTime := engagementTime\<rparr>;
                        distStoreToCustomer = getDistanceKm coords (optLat order, optLng order);
                        travelTime = (distStoreToCustomer / 20) * 60;
                        deliveryDuration = travelTime + BASE_HANDLING_TIME_MIN_OPT;
                        completionTime = currentTime r1 + deliveryDuration
                    in if completionTime > maxSimTime then optLoop coords maxSimTime targetSLA rest r1
                       else
                         (let orderDeliveryTime = completionTime - real_of_int (optTimePlaced order)
                          in optLoop coords maxSimTime targetSLA rest
                               (r1\<lparr>rDelivered := rDelivered r1 + 1,
                                   rTotalDeliveryTime := rTotalDeliveryTime r1 + orderDeliveryTime,
                                   rOrdersMeetingSLA :=
                                     (if orderDeliveryTime \<le> targetSLA then rOrdersMeetingSLA r1 + 1
                                      else rOrdersMeetingSLA r1),
                                   optAgents := (optAgents r1)[earliestAgentIndex :=
                                     agent\<lparr>availableAtTime := completionTime,
                                           totalActiveTimeThisRun := totalActiveTimeThisRun agent + deliveryDuration,
                                           distanceThisRun := distanceThisRun agent + distStoreToCustomer\<rparr>],
                                   rTotalDistanceKm := rTotalDistanceKm r1 + distStoreToCustomer\<rparr>))))))"

text \<open>
  The orders the generation loop of a run produces, and the run. The utilisation is
  \<open>NaN\<close> (reported as 0) exactly when \<open>numAgents * maxSimTime\<close> is 0: a delivery needs an
  agent and a horizon of at least the handling time, so the active time is 0 then.
\<close>

definition generatedOf :: "Env \<Rightarrow> CustomDemandProfile list \<Rightarrow> LatLngTuple \<Rightarrow> string \<Rightarrow> real \<Rightarrow> nat \<Rightarrow> OptGen" where
  "generatedOf E customDemandProfiles coords demandProfileId maxSimTime k =
     genLoop E (find (\<lambda>p. pid p = demandProfileId) customDemandProfiles) demandProfileId coords maxSimTime 0
       \<lparr>gOrders = [], gOrderIdCounter = 0, gGeneratedOrders = 0, gNext = k\<rparr>"

definition simplifiedSimulationRun ::
  "Env \<Rightarrow> CustomDemandProfile list \<Rightarrow> nat \<Rightarrow> LatLngTuple \<Rightarrow> string \<Rightarrow> real \<Rightarrow> real \<Rightarrow> nat \<Rightarrow> SimplifiedSimRunStats" where
  "simplifiedSimulationRun E customDemandProfiles n coords demandProfileId maxSimTime targetSLA k =
     (let g = generatedOf E customDemandProfiles coords demandProfileId maxSimTime k;
          generated0 = gGeneratedOrders g;
          generated1 = (if generated0 = 0 \<and> length (gOrders g) > 0 then length (gOrders g) else generated0);
          generated2 = (if generated1 = 0 then 1 else generated1);
          sorted = sort_key optTimePlaced (gOrders g);
          r = optLoop coords maxSimTime targetSLA sorted
                \<lparr>currentTime = 0,
                 optAgents = replicate n \<lparr>availableAtTime = 0, totalActiveTimeThisRun = 0, distanceThisRun = 0\<rparr>,
                 rDelivered = 0, rTotalDeliveryTime = 0, rOrdersMeetingSLA = 0, rTotalDistanceKm = 0\<rparr>;
          totalAgentActiveTimeThisRun = (\<Sum>a \<leftarrow> optAgents r. totalActiveTimeThisRun a)
      in \<lparr>deliveredOrders = rDelivered r,
          totalDeliveryTimeRun = rTotalDeliveryTime r,
          avgUtilization =
            (if real n * maxSimTime = 0 then 0
             else (totalAgentActiveTimeThisRun / (real n * maxSimTime)) * 100),
          ordersMeetingSLA = rOrdersMeetingSLA r,
          generatedOrders = generated2,
          totalDistanceKm = rTotalDistanceKm r\<rparr>)"

text \<open>The completion rate \<open>runOptimization\<close> reports for the runs of one agent count.\<close>

definition completionRate :: "SimplifiedSimRunStats list \<Rightarrow> real" where
  "completionRate runResultsForAgentCount =
     (let totalDelivered = (\<Sum>r \<leftarrow> runResultsForAgentCount. deliveredOrders r);
          totalGenerated = (\<Sum>r \<leftarrow> runResultsForAgentCount. generatedOrders r)
      in if totalGenerated > 0 then (real totalDelivered / real totalGenerated) * 100 else 0)"

section \<open>Notions used in the statements\<close>

text \<open>
  The \<open>n\<close>-th point \<open>getRandomPointInCcr\<close> draws when it starts at stream position \<open>k\<close> is
  \<open>sampleAt E (k + 2 * (n - 1))\<close>.
\<close>

definition sampleAt :: "Env \<Rightarrow> nat \<Rightarrow> LatLngTuple" where
  "sampleAt E k = (Math_random E k * (getNorth E - getSouth E) + getSouth E,
                   Math_random E (k + 1) * (getEast E - getWest E) + getWest E)"

text \<open>
  The bounds Leaflet computes for \<open>ccrGeoJsonPolygon\<close>: it reads the ring in GeoJSON order,
  so the latitudes run from 30.6 to 30.85 and the longitudes from 76.65 to 76.9.
\<close>

definition ccrBounds :: "Env \<Rightarrow> bool" where
  "ccrBounds E = (getSouth E = 30.6 \<and> getNorth E = 30.85 \<and> getWest E = 76.65 \<and> getEast E = 76.9)"

text \<open>
  The expected number of orders of a zone in one step, as \<open>generateOrdersLogic\<close> computes it
  from the draw at position \<open>k\<close>.
\<close>

definition expectedThisStep :: "Env \<Rightarrow> DemandZone \<Rightarrow> nat \<Rightarrow> real" where
  "expectedThisStep E zone k =
     (minOrders zone + Math_random E k * (maxOrders zone - minOrders zone)) *
     (real_of_int MINUTES_PER_SIMULATION_STEP / 60)"

text \<open>
  What the walk along the route leaves unchanged.
\<close>

definition same_job :: "Agent \<Rightarrow> Agent \<Rightarrow> bool" where
  "same_job b a =
     (astatus b = astatus a \<and> currentOrder b = currentOrder a \<and>
      routePath b = routePath a \<and> fatigueFactor b = fatigueFactor a)"


section \<open>Invariants of the simulation state\<close>

text \<open>
  The three conditions of an idle agent are pairwise equivalent.
\<close>

definition idleEquivalence :: "Agent \<Rightarrow> bool" where
  "idleEquivalence a =
     ((astatus a = available \<longleftrightarrow> currentOrder a = None) \<and>
      (currentOrder a = None \<longleftrightarrow> routePath a = []) \<and>
      (astatus a = available \<longleftrightarrow> routePath a = []))"

text \<open>
  The invariant of an agent: the idle equivalences; an agent at the store or on its way to
  the customer is at or past the last waypoint of its route; the status \<open>busy\<close> of the
  optimisation run does not occur; the fatigue factor is in range.
\<close>

definition agent_ok :: "Agent \<Rightarrow> bool" where
  "agent_ok a =
     ((astatus a = available \<longleftrightarrow> currentOrder a = None) \<and>
      (astatus a = available \<longleftrightarrow> routePath a = []) \<and>
      (astatus a = at_store \<or> astatus a = to_customer \<longrightarrow>
         int (currentLegIndex a) \<ge> int (length (routePath a)) - 1) \<and>
      astatus a \<noteq> busy \<and>
      1 / 2 \<le> fatigueFactor a \<and> fatigueFactor a \<le> 1)"

text \<open>
  The invariant of an order at simulation time \<open>now\<close>, of the running result of the movement
  engine, and of a state.
\<close>

definition order_ok :: "int \<Rightarrow> Order \<Rightarrow> bool" where
  "order_ok now x =
     (ostatus x \<noteq> delivered \<and> customerArrivalTime x = None \<and> deliveryTime x = None \<and>
      timePlaced x \<le> now \<and>
      (\<forall>t. storeArrivalTime x = Some t \<longrightarrow> timePlaced x \<le> t \<and> t \<le> now))"

definition acc_ok :: "int \<Rightarrow> MoveAcc \<Rightarrow> bool" where
  "acc_ok now acc =
     ((\<forall>x \<in> set (updatedOrders acc). order_ok now x) \<and>
      deliveredOrdersThisStep acc = [] \<and> totalDeliveryTimeIncrement acc = 0)"

definition state_ok :: "SimulationState \<Rightarrow> bool" where
  "state_ok s =
     ((\<forall>a \<in> set (agents s). agent_ok a) \<and>
      (\<forall>x \<in> set (orders s). order_ok (currentSimulationTime s) x) \<and>
      totalOrdersDelivered s = 0 \<and> darkStoreLocations s \<noteq> [])"

text \<open>
  The law of the timestamps of an order at simulation time \<open>now\<close>: the order was placed by
  \<open>now\<close>; a store arrival time lies between the placement and \<open>now\<close>; a customer arrival
  time lies between the placement and \<open>now\<close> and is not before the store arrival time; a
  delivered order has a customer arrival time, and its delivery time is that time minus
  the time of placement.
\<close>

definition timestampsOrdered :: "int \<Rightarrow> Order \<Rightarrow> bool" where
  "timestampsOrdered now x =
     (timePlaced x \<le> now \<and>
      (case storeArrivalTime x of None \<Rightarrow> True | Some t \<Rightarrow> timePlaced x \<le> t \<and> t \<le> now) \<and>
      (case customerArrivalTime x of
         None \<Rightarrow> True
       | Some c \<Rightarrow> timePlaced x \<le> c \<and> c \<le> now \<and>
                   (case storeArrivalTime x of None \<Rightarrow> True | Some t \<Rightarrow> t \<le> c)) \<and>
      (ostatus x = delivered \<longrightarrow>
         (case customerArrivalTime x of
            None \<Rightarrow> False
          | Some c \<Rightarrow> deliveryTime x = Some (c - timePlaced x))))"

text \<open>
  No agent on its way to a store holds an order that already has a customer arrival time.
\<close>

definition storeRunsOpen :: "Agent list \<Rightarrow> Order list \<Rightarrow> bool" where
  "storeRunsOpen as os =
     list_all (\<lambda>a. astatus a = to_store \<longrightarrow>
                 list_all (\<lambda>x. currentOrder a = Some (oid x) \<longrightarrow> customerArrivalTime x = None) os) as"

text \<open>
  The law during one run of the movement engine at time \<open>now\<close>: an order that an agent of
  the run is fetching (its id is in \<open>R\<close>) may be delivered by another agent in the same
  run, and then carries the time of this run.
\<close>

definition stampsDuring :: "string set \<Rightarrow> int \<Rightarrow> Order \<Rightarrow> bool" where
  "stampsDuring R now x =
     (timestampsOrdered now x \<and>
      (oid x \<in> R \<longrightarrow> customerArrivalTime x = None \<or> customerArrivalTime x = Some now))"

section \<open>Example data\<close>

text \<open>
  An environment with the bounds of the region, every draw 1/2 except the first, and the
  great-circle distance in metres for Leaflet's \<open>distanceTo\<close>; the default parameters with
  one agent. With the draw 1/2 the agent starts exactly at the default dark store.
\<close>

definition exEnv :: "real \<Rightarrow> Env" where
  "exEnv r0 = \<lparr>rnd = (\<lambda>k. if k = 0 then r0 else 1 / 2), idSuffix = (\<lambda>k. ''x''),
            distanceTo = (\<lambda>p q. 1000 * getDistanceKm p q),
            getSouth = 30.6, getNorth = 30.85, getWest = 76.65, getEast = 76.9\<rparr>"

definition exParams :: SimParams where
  "exParams = \<lparr>numAgents = 1, agentSpeedKmph = 25, orderGenProfileId = ''default_uniform_ccr'',
               baseTrafficFactor = 1, enableDynamicTraffic = False\<rparr>"

definition exRoute :: "LatLngTuple list" where
  "exRoute = replicate 7 defaultDarkStoreLocationSim"

definition exAgent0 :: Agent where
  "exAgent0 = \<lparr>aid = ''A1_x'', alat = 30.7333, alng = 76.7794, astatus = available,
      currentOrder = None, routePath = [], legProgress = 0, currentLegIndex = 0,
      fatigueFactor = 1, consecutiveDeliveriesSinceRest = 0, timeContinuouslyActive = 0,
      totalDistance = 0, deliveriesCompleted = 0,
      timeSpentIdle = 0, timeSpentDelivering = 0, timeSpentAtStore = 0\<rparr>"

definition exOrder0 :: Order where
  "exOrder0 = \<lparr>oid = ''O1_x'', olat = 30.7333, olng = 76.7794, timePlaced = 5,
      ostatus = pending, assignedAgentId = None, storeArrivalTime = None,
      customerArrivalTime = None, deliveryTime = None\<rparr>"

definition exState0 :: SimulationState where
  "exState0 = \<lparr>isRunning = False, agents = [exAgent0], orders = [], orderIdCounter = 0,
      agentIdCounter = 1, currentSimulationTime = 0, currentDynamicTrafficFactor = 1,
      totalOrdersGenerated = 0, totalOrdersDelivered = 0, totalDeliveryTime = 0,
      totalAgentTravelDistance = 0, totalAgentActiveTime = 0,
      darkStoreLocations = [defaultDarkStoreLocationSim]\<rparr>"

text \<open>
  The run: after the first tick (an order is placed at the default location, assigned, and
  the agent, already there, arrives at the store), and after the second (pickup).
\<close>

definition exAgent1 :: Agent where
  "exAgent1 = exAgent0\<lparr>astatus := to_store, currentOrder := Some ''O1_x'', routePath := exRoute\<rparr>"

definition exOrder1 :: Order where
  "exOrder1 = exOrder0\<lparr>ostatus := assigned, assignedAgentId := Some ''A1_x''\<rparr>"

definition exAgent2 :: Agent where
  "exAgent2 = exAgent1\<lparr>astatus := at_store, currentLegIndex := 6, timeContinuouslyActive := 5,
                         timeSpentDelivering := 5, totalDistance := 25 / 12\<rparr>"

definition exOrder2 :: Order where
  "exOrder2 = exOrder1\<lparr>storeArrivalTime := Some 5\<rparr>"

definition exState1 :: SimulationState where
  "exState1 = exState0\<lparr>isRunning := True, agents := [exAgent2], orders := [exOrder2],
      orderIdCounter := 1, currentSimulationTime := 5, totalOrdersGenerated := 1\<rparr>"

definition exAgent3 :: Agent where
  "exAgent3 = exAgent2\<lparr>astatus := to_customer, timeContinuouslyActive := 10, timeSpentAtStore := 5\<rparr>"

definition exOrder3 :: Order where
  "exOrder3 = exOrder2\<lparr>ostatus := picked_up\<rparr>"

definition exState2 :: SimulationState where
  "exState2 = exState1\<lparr>agents := [exAgent3], orders := [exOrder3], currentSimulationTime := 10\<rparr>"

text \<open>
  Two tired agents, one busy past the time threshold and one idle past the recovery time.
\<close>

definition tiredBusy :: Agent where
  "tiredBusy = exAgent3\<lparr>fatigueFactor := 0.6, timeContinuouslyActive := 180\<rparr>"

definition tiredIdle :: Agent where
  "tiredIdle = exAgent0\<lparr>fatigueFactor := 0.6, timeSpentIdle := 30\<rparr>"

text \<open>
  A profile with one zone of 36 orders per hour, active all day.
\<close>

definition rushZone :: DemandZone where
  "rushZone = \<lparr>shape = uniform_ccr, minOrders = 36, maxOrders = 36, startTime = 0, endTime = 23\<rparr>"

definition rushProfile :: CustomDemandProfile where
  "rushProfile = \<lparr>pid = ''rush'', zones = [rushZone]\<rparr>"




text \<open>
  The orders and agents of a dispatch at minute 20, one tick before two arrivals: an order
  delivered before, an order on its way to the customer, and an order whose agent is on
  its way to the store. Both agents are at the first waypoint of a route that stays at the
  default dark store, so one tick takes them to its end. After the tick at minute 25 the
  second order is delivered and the third has its store arrival time.
\<close>

definition doneOrder :: Order where
  "doneOrder = exOrder0\<lparr>ostatus := delivered, assignedAgentId := Some ''A1_x'',
      storeArrivalTime := Some 10, customerArrivalTime := Some 15, deliveryTime := Some 10\<rparr>"

definition carriedOrder :: Order where
  "carriedOrder = exOrder0\<lparr>oid := ''O2_x'', timePlaced := 10, ostatus := picked_up,
      assignedAgentId := Some ''A1_x'', storeArrivalTime := Some 15\<rparr>"

definition awaitedOrder :: Order where
  "awaitedOrder = exOrder0\<lparr>oid := ''O3_x'', timePlaced := 20, ostatus := assigned,
      assignedAgentId := Some ''A2_x''\<rparr>"

definition courier :: Agent where
  "courier = exAgent1\<lparr>astatus := to_customer, currentOrder := Some ''O2_x''\<rparr>"

definition fetcher :: Agent where
  "fetcher = exAgent1\<lparr>aid := ''A2_x'', currentOrder := Some ''O3_x''\<rparr>"

definition deliveredOrder :: Order where
  "deliveredOrder = carriedOrder\<lparr>ostatus := delivered, customerArrivalTime := Some 25,
      deliveryTime := Some 15\<rparr>"

definition fetchedOrder :: Order where
  "fetchedOrder = awaitedOrder\<lparr>storeArrivalTime := Some 25\<rparr>"

section \<open>Sampling in the region\<close>

lemma Math_random_range: "0 \<le> Math_random E k \<and> Math_random E k < 1"
  by (simp add: Math_random_def Let_def)

lemma outside_ring: "fst p < 76.65 \<Longrightarrow> \<not> isPointInPolygon p ccrRing"
  by (simp add: isPointInPolygon_def ccrRing_def Let_def)

lemma ccrLoop_result:
  "attempts \<le> MAX_ATTEMPTS \<Longrightarrow>
   \<exists>n. 1 \<le> n \<and> attempts + n \<le> MAX_ATTEMPTS + 1 \<and> snd (ccrLoop E attempts k) = k + 2 * n \<and>
       (\<forall>j < n - 1. \<not> isPointInPolygon (sampleAt E (k + 2 * j)) ccrRing) \<and>
       ((attempts + n = MAX_ATTEMPTS + 1 \<and> fst (ccrLoop E attempts k) = defaultDarkStoreLocationSim) \<or>
        (attempts + n \<le> MAX_ATTEMPTS \<and> fst (ccrLoop E attempts k) = sampleAt E (k + 2 * (n - 1)) \<and>
         isPointInPolygon (fst (ccrLoop E attempts k)) ccrRing))"
proof (induction E attempts k rule: ccrLoop.induct)
  case (1 E attempts k)
  let ?pt = "sampleAt E k"
  show ?case
  proof (cases "attempts + 1 > MAX_ATTEMPTS")
    case True
    then have "ccrLoop E attempts k = (defaultDarkStoreLocationSim, k + 2)"
      by (subst ccrLoop.simps) (simp add: Let_def)
    with True 1(2) show ?thesis by (intro exI[of _ 1]) simp
  next
    case False
    show ?thesis
    proof (cases "isPointInPolygon ?pt ccrRing")
      case True
      with False have "ccrLoop E attempts k = (?pt, k + 2)"
        by (subst ccrLoop.simps) (simp add: Let_def sampleAt_def)
      with True False show ?thesis by (intro exI[of _ 1]) simp
    next
      case out: False
      with False have eq: "ccrLoop E attempts k = ccrLoop E (attempts + 1) (k + 2)"
        by (subst ccrLoop.simps) (simp add: Let_def sampleAt_def)
      from False have le: "attempts + 1 \<le> MAX_ATTEMPTS" by simp
      from 1(1)[OF refl refl _ _ le] False out
      obtain n where n: "1 \<le> n" "attempts + 1 + n \<le> MAX_ATTEMPTS + 1"
        "snd (ccrLoop E (attempts + 1) (k + 2)) = k + 2 + 2 * n"
        "\<forall>j < n - 1. \<not> isPointInPolygon (sampleAt E (k + 2 + 2 * j)) ccrRing"
        "(attempts + 1 + n = MAX_ATTEMPTS + 1 \<and> fst (ccrLoop E (attempts + 1) (k + 2)) = defaultDarkStoreLocationSim) \<or>
        (attempts + 1 + n \<le> MAX_ATTEMPTS \<and> fst (ccrLoop E (attempts + 1) (k + 2)) = sampleAt E (k + 2 + 2 * (n - 1)) \<and>
         isPointInPolygon (fst (ccrLoop E (attempts + 1) (k + 2))) ccrRing)"
        by (auto simp: sampleAt_def)
      have idx: "Suc (Suc (k + 2 * (n - Suc 0))) = k + 2 * n" using n(1) by simp
      have fails: "\<forall>j < n. \<not> isPointInPolygon (sampleAt E (k + 2 * j)) ccrRing"
      proof (intro allI impI)
        fix j assume j: "j < n"
        show "\<not> isPointInPolygon (sampleAt E (k + 2 * j)) ccrRing"
        proof (cases j)
          case 0
          with out show ?thesis by simp
        next
          case (Suc i)
          with j have "i < n - 1" by simp
          with n(4) have f: "\<not> isPointInPolygon (sampleAt E (k + 2 + 2 * i)) ccrRing" by blast
          have e: "k + 2 + 2 * i = k + 2 * j" using Suc by simp
          show ?thesis using f unfolding e .
        qed
      qed
      have "1 \<le> n + 1 \<and> attempts + (n + 1) \<le> MAX_ATTEMPTS + 1 \<and>
            snd (ccrLoop E attempts k) = k + 2 * (n + 1) \<and>
            (\<forall>j < n + 1 - 1. \<not> isPointInPolygon (sampleAt E (k + 2 * j)) ccrRing) \<and>
            ((attempts + (n + 1) = MAX_ATTEMPTS + 1 \<and>
              fst (ccrLoop E attempts k) = defaultDarkStoreLocationSim) \<or>
             (attempts + (n + 1) \<le> MAX_ATTEMPTS \<and>
              fst (ccrLoop E attempts k) = sampleAt E (k + 2 * (n + 1 - 1)) \<and>
              isPointInPolygon (fst (ccrLoop E attempts k)) ccrRing))"
        using n(2,3,5) fails idx by (auto simp: eq)
      then show ?thesis by (rule exI[of _ "n + 1"])
    qed
  qed
qed

lemma ccrLoop_exhausts:
  "ccrBounds E \<Longrightarrow> attempts \<le> MAX_ATTEMPTS \<Longrightarrow>
   ccrLoop E attempts k = (defaultDarkStoreLocationSim, k + 2 * (MAX_ATTEMPTS + 1 - attempts))"
proof (induction E attempts k rule: ccrLoop.induct)
  case (1 E attempts k)
  have r: "0 \<le> Math_random E k" "Math_random E k < 1" using Math_random_range by auto
  have b: "getSouth E = 30.6" "getNorth E = 30.85" using 1(2) by (simp_all add: ccrBounds_def)
  have "fst (sampleAt E k) < 76.65"
    using r unfolding sampleAt_def b by simp
  then have out: "\<not> isPointInPolygon (sampleAt E k) ccrRing" by (rule outside_ring)
  show ?case
  proof (cases "attempts + 1 > MAX_ATTEMPTS")
    case True
    with 1(3) have "attempts = MAX_ATTEMPTS" by simp
    then show ?thesis by (subst ccrLoop.simps) (simp add: Let_def)
  next
    case False
    with out have eq: "ccrLoop E attempts k = ccrLoop E (attempts + 1) (k + 2)"
      by (subst ccrLoop.simps) (simp add: Let_def sampleAt_def)
    from False have le: "attempts + 1 \<le> MAX_ATTEMPTS" by simp
    have "ccrLoop E (attempts + 1) (k + 2) =
       (defaultDarkStoreLocationSim, k + 2 + 2 * (MAX_ATTEMPTS + 1 - (attempts + 1)))"
      using 1(1)[OF refl refl _ _ 1(2) le] False out by (simp add: sampleAt_def)
    with eq le show ?thesis by simp
  qed
qed

lemma getRandomPointInCcr_default:
  "ccrBounds E \<Longrightarrow> getRandomPointInCcr E k = (defaultDarkStoreLocationSim, k + 402)"
  using ccrLoop_exhausts[of E 0 k] by (simp add: getRandomPointInCcr_def MAX_ATTEMPTS_def)

section \<open>Lists\<close>

lemma findIndex_Some: "findIndex P xs = Some i \<Longrightarrow> i < length xs \<and> P (xs ! i)"
  by (induction xs arbitrary: i) (auto split: if_splits option.splits)

lemma all_set_update: "\<forall>x \<in> set xs. Q x \<Longrightarrow> Q y \<Longrightarrow> \<forall>x \<in> set (xs[i := y]). Q x"
  by (metis insert_iff set_update_subset_insert subsetD)

lemma all_less_two: "(\<forall>i<Suc (Suc 0). P i) = (P 0 \<and> P (Suc 0))"
  by (auto simp: less_Suc_eq)

lemma sum_list_pos:
  "xs \<noteq> [] \<Longrightarrow> \<forall>x \<in> set xs. (1::nat) \<le> f x \<Longrightarrow> 0 < (\<Sum>x \<leftarrow> xs. f x)"
  by (induction xs) auto

lemma digitsOf_1 [simp]: "digitsOf (Suc 0) = ''1''"
  by code_simp

lemma getDistanceKm_same: "getDistanceKm p p = 0"
  by (simp add: getDistanceKm_def atan2_def)

lemma generateWaypoints_length [simp]: "length (generateWaypoints p q) = 4"
  by (simp add: generateWaypoints_def)

lemma mod_step: "MINUTES_PER_SIMULATION_STEP = 5"
  by (simp add: MINUTES_PER_SIMULATION_STEP_def)

section \<open>The movement engine, case by case\<close>

lemma walkLegs_job: "same_job (walkLegs E a r) a"
proof (induction E a r rule: walkLegs.induct)
  case (1 E agent r)
  let ?c = "r > 0 \<and> int (currentLegIndex agent) < int (length (routePath agent)) - 1"
  let ?endP = "routePath agent ! (currentLegIndex agent + 1)"
  let ?legKm = "distanceTo E (alat agent, alng agent) ?endP / 1000"
  let ?a1 = "agent\<lparr>currentLegIndex := currentLegIndex agent + 1, legProgress := 0\<rparr>"
  let ?toCover = "?legKm * (1 - legProgress agent)"
  let ?a2 = "agent\<lparr>alat := fst ?endP, alng := snd ?endP,
                    currentLegIndex := currentLegIndex agent + 1, legProgress := 0\<rparr>"
  have ih1: "?c \<Longrightarrow> ?legKm < 0.001 \<Longrightarrow>
      \<not> (int (currentLegIndex ?a1) \<ge> int (length (routePath ?a1)) - 1) \<Longrightarrow>
      same_job (walkLegs E ?a1 r) ?a1"
    using 1(1)[OF _ refl refl refl _ refl] by blast
  have ih2: "?c \<Longrightarrow> \<not> ?legKm < 0.001 \<Longrightarrow> r \<ge> ?toCover \<Longrightarrow>
      same_job (walkLegs E ?a2 (r - ?toCover)) ?a2"
    using 1(2)[OF _ refl refl refl _ refl] by blast
  show ?case
  proof (cases ?c)
    case False
    have "walkLegs E agent r = agent"
      by (subst walkLegs.simps) (simp only: False if_False)
    then show ?thesis by (simp add: same_job_def)
  next
    case c: True
    show ?thesis
    proof (cases "?legKm < 0.001")
      case True
      show ?thesis
      proof (cases "int (currentLegIndex ?a1) \<ge> int (length (routePath ?a1)) - 1")
        case brk: True
        have "walkLegs E agent r = ?a1"
          using c True brk by (subst walkLegs.simps) (simp add: Let_def)
        then show ?thesis by (simp add: same_job_def)
      next
        case cont: False
        have "walkLegs E agent r = walkLegs E ?a1 r"
          using c True cont by (subst walkLegs.simps) (simp add: Let_def)
        with ih1[OF c True cont] show ?thesis by (simp add: same_job_def)
      qed
    next
      case far: False
      show ?thesis
      proof (cases "r \<ge> ?toCover")
        case True
        have "walkLegs E agent r = walkLegs E ?a2 (r - ?toCover)"
          using c far True by (subst walkLegs.simps) (simp add: Let_def)
        with ih2[OF c far True] show ?thesis by (simp add: same_job_def)
      next
        case False
        let ?np = "legProgress agent + r / ?legKm"
        let ?ini = "routePath agent ! currentLegIndex agent"
        have "walkLegs E agent r = agent\<lparr>legProgress := ?np,
                alat := fst ?ini + (fst ?endP - fst ?ini) * ?np,
                alng := snd ?ini + (snd ?endP - snd ?ini) * ?np\<rparr>"
          using c far False by (subst walkLegs.simps) (simp add: Let_def)
        then show ?thesis by (simp add: same_job_def)
      qed
    qed
  qed
qed

lemma arrival_not_at_end:
  "\<not> int (currentLegIndex a) \<ge> int (length (routePath a)) - 1 \<Longrightarrow>
   arrival now dsl a acc = ((a, True), acc)"
  by (simp only: arrival_def if_False)

lemma arrival_lost:
  "int (currentLegIndex a) \<ge> int (length (routePath a)) - 1 \<Longrightarrow>
   orderIndexOf (updatedOrders acc) (currentOrder a) = None \<Longrightarrow>
   arrival now dsl a acc =
     (if truthy (currentOrder a)
      then ((a\<lparr>astatus := available, currentOrder := None, routePath := []\<rparr>, False), acc)
      else ((a, True), acc))"
  by (simp only: arrival_def if_True option.case)

lemma arrival_store:
  "int (currentLegIndex a) \<ge> int (length (routePath a)) - 1 \<Longrightarrow>
   orderIndexOf (updatedOrders acc) (currentOrder a) = Some i \<Longrightarrow>
   astatus a = to_store \<Longrightarrow>
   arrival now dsl a acc =
     (((case find (\<lambda>p. list_ex (\<lambda>d. fst d = fst p \<and> snd d = snd p) dsl) (routePath a) of
          Some sc \<Rightarrow> a\<lparr>astatus := at_store, alat := fst sc, alng := snd sc\<rparr>
        | None \<Rightarrow> a\<lparr>astatus := at_store\<rparr>)\<lparr>legProgress := 0\<rparr>, True),
      acc\<lparr>updatedOrders := (updatedOrders acc)
             [i := (updatedOrders acc ! i)\<lparr>storeArrivalTime := Some now\<rparr>]\<rparr>)"
  by (cases "find (\<lambda>p. list_ex (\<lambda>d. fst d = fst p \<and> snd d = snd p) dsl) (routePath a)")
     (simp_all add: arrival_def Let_def)

lemma arrival_customer:
  "int (currentLegIndex a) \<ge> int (length (routePath a)) - 1 \<Longrightarrow>
   orderIndexOf (updatedOrders acc) (currentOrder a) = Some i \<Longrightarrow>
   astatus a = to_customer \<Longrightarrow>
   updatedOrders (snd (arrival now dsl a acc)) =
     (updatedOrders acc)[i := (updatedOrders acc ! i)
        \<lparr>ostatus := delivered, customerArrivalTime := Some now,
         deliveryTime := Some (now - timePlaced (updatedOrders acc ! i))\<rparr>]"
  by (simp add: arrival_def Let_def)

lemma moveAgent_idle:
  "astatus a = available \<Longrightarrow>
   moveAgent E sp tr now dsl a acc =
     (a\<lparr>timeSpentIdle := timeSpentIdle a + MINUTES_PER_SIMULATION_STEP\<rparr>, acc)"
  by (simp add: moveAgent_def)

lemma moveAgent_at_store:
  "astatus a = at_store \<Longrightarrow>
   moveAgent E sp tr now dsl a acc =
     (let agent1 = a\<lparr>timeContinuouslyActive := timeContinuouslyActive a + MINUTES_PER_SIMULATION_STEP,
                      timeSpentAtStore := timeSpentAtStore a + MINUTES_PER_SIMULATION_STEP,
                      legProgress := legProgress a + real_of_int MINUTES_PER_SIMULATION_STEP\<rparr>
      in if legProgress agent1 \<ge> 5 then
           (case orderIndexOf (updatedOrders acc) (currentOrder a) of
              Some i \<Rightarrow>
                (agent1\<lparr>astatus := to_customer, legProgress := 0\<rparr>,
                 acc\<lparr>updatedOrders := (updatedOrders acc)
                        [i := (updatedOrders acc ! i)\<lparr>ostatus := picked_up\<rparr>]\<rparr>)
            | None \<Rightarrow> (agent1\<lparr>astatus := available, currentOrder := None, routePath := []\<rparr>, acc))
         else (agent1, acc))"
  by (simp add: moveAgent_def Let_def)

lemma moveAgent_guard:
  "astatus a \<noteq> available \<Longrightarrow> astatus a \<noteq> at_store \<Longrightarrow>
   length (routePath a) = 0 \<or> int (currentLegIndex a) \<ge> int (length (routePath a)) - 1 \<Longrightarrow>
   moveAgent E sp tr now dsl a acc =
     (a\<lparr>timeContinuouslyActive := timeContinuouslyActive a + MINUTES_PER_SIMULATION_STEP\<rparr>, acc)"
  by (auto simp add: moveAgent_def Let_def)

lemma moveAgent_moving:
  "astatus a \<noteq> available \<Longrightarrow> astatus a \<noteq> at_store \<Longrightarrow>
   \<not> (length (routePath a) = 0 \<or> int (currentLegIndex a) \<ge> int (length (routePath a)) - 1) \<Longrightarrow>
   moveAgent E sp tr now dsl a acc =
     (let agent1 = a\<lparr>timeContinuouslyActive := timeContinuouslyActive a + MINUTES_PER_SIMULATION_STEP,
                      timeSpentDelivering := timeSpentDelivering a + MINUTES_PER_SIMULATION_STEP\<rparr>;
          effectiveSpeed = sp * fatigueFactor a * tr
      in if effectiveSpeed \<le> 0.01 then (agent1, acc)
         else
           (let d = (effectiveSpeed / 60) * real_of_int MINUTES_PER_SIMULATION_STEP;
                res = arrival now dsl (walkLegs E (agent1\<lparr>totalDistance := totalDistance a + d\<rparr>) d) acc
            in (if \<not> snd (fst res) then (fst (fst res))\<lparr>timeContinuouslyActive := 0\<rparr> else fst (fst res),
                snd res)))"
  by (auto simp add: moveAgent_def Let_def split: prod.splits)

section \<open>The invariant holds in every reachable state\<close>

lemma mkAgents_ok: "a \<in> set (mkAgents E i m k) \<Longrightarrow> agent_ok a"
  by (induction m arbitrary: i k) (auto simp: agent_ok_def)

lemma agent_ok_counters [simp]:
  "agent_ok (a\<lparr>timeSpentIdle := i\<rparr>) = agent_ok a"
  "agent_ok (a\<lparr>timeContinuouslyActive := c\<rparr>) = agent_ok a"
  "agent_ok (a\<lparr>timeSpentDelivering := d\<rparr>) = agent_ok a"
  "agent_ok (a\<lparr>timeSpentAtStore := t\<rparr>) = agent_ok a"
  "agent_ok (a\<lparr>totalDistance := x\<rparr>) = agent_ok a"
  "agent_ok (a\<lparr>legProgress := p\<rparr>) = agent_ok a"
  by (simp_all add: agent_ok_def)

lemma agent_ok_same_job:
  "same_job b a \<Longrightarrow> astatus a = to_store \<Longrightarrow> agent_ok a \<Longrightarrow> agent_ok b"
  by (simp add: same_job_def agent_ok_def)

lemma fatigueAgent_ok: "agent_ok a \<Longrightarrow> agent_ok (fatigueAgent a)"
  by (auto simp: agent_ok_def fatigueAgent_def Let_def min_def max_def)

lemma arrival_ok:
  assumes "agent_ok a" "acc_ok now acc" "astatus a = to_store"
  shows "agent_ok (fst (fst (arrival now dsl a acc))) \<and> acc_ok now (snd (arrival now dsl a acc))"
proof (cases "int (currentLegIndex a) \<ge> int (length (routePath a)) - 1")
  case False
  with assms show ?thesis by (simp add: arrival_not_at_end)
next
  case at_end: True
  show ?thesis
  proof (cases "orderIndexOf (updatedOrders acc) (currentOrder a)")
    case None
    have "agent_ok (a\<lparr>astatus := available, currentOrder := None, routePath := []\<rparr>)"
      using assms(1) by (simp add: agent_ok_def)
    with assms(1,2) show ?thesis by (simp add: arrival_lost[OF at_end None])
  next
    case (Some i)
    then have i: "i < length (updatedOrders acc)"
      by (auto simp: orderIndexOf_def split: option.splits dest: findIndex_Some)
    then have oi: "order_ok now (updatedOrders acc ! i)" using assms(2) by (simp add: acc_ok_def)
    have new: "order_ok now ((updatedOrders acc ! i)\<lparr>storeArrivalTime := Some now\<rparr>)"
      using oi by (simp add: order_ok_def)
    let ?sc = "find (\<lambda>p. list_ex (\<lambda>d. fst d = fst p \<and> snd d = snd p) dsl) (routePath a)"
    have "agent_ok ((case ?sc of Some sc \<Rightarrow> a\<lparr>astatus := at_store, alat := fst sc, alng := snd sc\<rparr>
                     | None \<Rightarrow> a\<lparr>astatus := at_store\<rparr>)\<lparr>legProgress := 0\<rparr>)"
      using assms(1,3) at_end by (cases ?sc) (simp_all add: agent_ok_def)
    moreover have "acc_ok now (acc\<lparr>updatedOrders := (updatedOrders acc)
             [i := (updatedOrders acc ! i)\<lparr>storeArrivalTime := Some now\<rparr>]\<rparr>)"
    proof -
      have "\<forall>x \<in> set ((updatedOrders acc)[i := (updatedOrders acc ! i)\<lparr>storeArrivalTime := Some now\<rparr>]).
              order_ok now x"
        using assms(2) new by (intro all_set_update) (simp_all add: acc_ok_def)
      with assms(2) show ?thesis by (simp add: acc_ok_def)
    qed
    ultimately show ?thesis by (simp add: arrival_store[OF at_end Some assms(3)])
  qed
qed

lemma moveAgent_ok:
  assumes "agent_ok a" "acc_ok now acc"
  shows "agent_ok (fst (moveAgent E sp tr now dsl a acc)) \<and> acc_ok now (snd (moveAgent E sp tr now dsl a acc))"
proof (cases "astatus a = available")
  case True
  with assms show ?thesis by (simp add: moveAgent_idle)
next
  case busy: False
  show ?thesis
  proof (cases "astatus a = at_store")
    case True
    let ?a1 = "a\<lparr>timeContinuouslyActive := timeContinuouslyActive a + MINUTES_PER_SIMULATION_STEP,
                      timeSpentAtStore := timeSpentAtStore a + MINUTES_PER_SIMULATION_STEP,
                      legProgress := legProgress a + real_of_int MINUTES_PER_SIMULATION_STEP\<rparr>"
    have a1: "agent_ok ?a1" using assms(1) by simp
    have tc: "agent_ok (?a1\<lparr>astatus := to_customer, legProgress := 0\<rparr>)"
      using assms(1) True by (simp add: agent_ok_def)
    have av: "agent_ok (?a1\<lparr>astatus := available, currentOrder := None, routePath := []\<rparr>)"
      using assms(1) by (simp add: agent_ok_def)
    show ?thesis
    proof (cases "orderIndexOf (updatedOrders acc) (currentOrder a)")
      case None
      with a1 av assms(2) show ?thesis
        by (simp add: moveAgent_at_store[OF True] Let_def)
    next
      case (Some i)
      then have i: "i < length (updatedOrders acc)"
        by (auto simp: orderIndexOf_def split: option.splits dest: findIndex_Some)
      then have "order_ok now (updatedOrders acc ! i)" using assms(2) by (simp add: acc_ok_def)
      then have new: "order_ok now ((updatedOrders acc ! i)\<lparr>ostatus := picked_up\<rparr>)"
        by (simp add: order_ok_def)
      have "\<forall>x \<in> set ((updatedOrders acc)[i := (updatedOrders acc ! i)\<lparr>ostatus := picked_up\<rparr>]).
              order_ok now x"
        using assms(2) new by (intro all_set_update) (simp_all add: acc_ok_def)
      with assms(2) have "acc_ok now (acc\<lparr>updatedOrders := (updatedOrders acc)
                        [i := (updatedOrders acc ! i)\<lparr>ostatus := picked_up\<rparr>]\<rparr>)"
        by (simp add: acc_ok_def)
      with a1 tc assms(2) Some show ?thesis
        by (simp add: moveAgent_at_store[OF True] Let_def)
    qed
  next
    case moving: False
    show ?thesis
    proof (cases "length (routePath a) = 0 \<or> int (currentLegIndex a) \<ge> int (length (routePath a)) - 1")
      case True
      with assms show ?thesis by (simp add: moveAgent_guard[OF busy moving True])
    next
      case go: False
      from go moving busy assms(1) have st: "astatus a = to_store"
        by (cases "astatus a") (auto simp: agent_ok_def)
      let ?a1 = "a\<lparr>timeContinuouslyActive := timeContinuouslyActive a + MINUTES_PER_SIMULATION_STEP,
                      timeSpentDelivering := timeSpentDelivering a + MINUTES_PER_SIMULATION_STEP\<rparr>"
      let ?d = "((sp * fatigueFactor a * tr) / 60) * real_of_int MINUTES_PER_SIMULATION_STEP"
      let ?a2 = "?a1\<lparr>totalDistance := totalDistance a + ?d\<rparr>"
      let ?w = "walkLegs E ?a2 ?d"
      have a2: "agent_ok ?a2" "astatus ?a2 = to_store" using assms(1) st by simp_all
      have w: "agent_ok ?w" "astatus ?w = to_store"
        using walkLegs_job[of E ?a2 ?d] a2 agent_ok_same_job[of ?w ?a2]
        by (simp_all add: same_job_def)
      note arr = arrival_ok[OF w(1) assms(2) w(2), of dsl]
      show ?thesis
        using arr assms by (simp add: moveAgent_moving[OF busy moving go] Let_def)
    qed
  qed
qed

lemma moveLoop_ok:
  "\<forall>a \<in> set as. agent_ok a \<Longrightarrow> acc_ok now acc \<Longrightarrow>
   (\<forall>a \<in> set (fst (moveLoop E sp tr now dsl as acc)). agent_ok a) \<and>
   acc_ok now (snd (moveLoop E sp tr now dsl as acc))"
proof (induction as arbitrary: acc)
  case Nil
  then show ?case by simp
next
  case (Cons a as)
  have m: "agent_ok (fst (moveAgent E sp tr now dsl a acc))"
          "acc_ok now (snd (moveAgent E sp tr now dsl a acc))"
    using moveAgent_ok[of a now acc] Cons.prems by simp_all
  from Cons.IH[OF _ m(2)] Cons.prems(1) m(1) show ?case
    by (simp add: split_beta)
qed

lemma fatigue_ok:
  "\<forall>a \<in> set as. agent_ok a \<Longrightarrow> \<forall>a \<in> set (updateAgentFatigueLogic as). agent_ok a"
  by (simp add: updateAgentFatigueLogic_def fatigueAgent_ok)

lemma assignOrder_ok:
  assumes "\<forall>a \<in> set as. agent_ok a" "\<forall>x \<in> set os. order_ok now x"
  shows "(\<forall>a \<in> set (fst (assignOrder sp tr dsl order (as, os, pool))). agent_ok a) \<and>
         (\<forall>x \<in> set (fst (snd (assignOrder sp tr dsl order (as, os, pool)))). order_ok now x)"
proof (cases "bestAgentLoop as sp tr (bestDarkStoreForOrder dsl order) order pool None")
  case None
  with assms show ?thesis by (simp add: assignOrder_def)
next
  case (Some be)
  obtain b eta where be: "be = (b, eta)" by (cases be)
  show ?thesis
  proof (cases "findIndex (\<lambda>x. oid x = oid order) os")
    case None
    with assms Some be show ?thesis by (simp add: assignOrder_def)
  next
    case oi: (Some orderIndex)
    show ?thesis
    proof (cases "findIndex (\<lambda>a. aid a = aid b) as")
      case None
      with assms Some be oi show ?thesis by (simp add: assignOrder_def)
    next
      case ai: (Some agentIndex)
      let ?route = "generateWaypoints (alat b, alng b) (bestDarkStoreForOrder dsl order) @
                    drop 1 (generateWaypoints (bestDarkStoreForOrder dsl order) (olat order, olng order))"
      let ?a = "(as ! agentIndex)\<lparr>astatus := to_store, currentOrder := Some (oid order),
                   routePath := ?route, currentLegIndex := 0, legProgress := 0\<rparr>"
      let ?x = "(os ! orderIndex)\<lparr>ostatus := assigned, assignedAgentId := Some (aid b)\<rparr>"
      have "agentIndex < length as" using ai by (auto dest: findIndex_Some)
      then have "agent_ok (as ! agentIndex)" using assms(1) by simp
      moreover have "?route \<noteq> []" by (simp add: generateWaypoints_def)
      ultimately have a: "agent_ok ?a" by (simp add: agent_ok_def)
      have "orderIndex < length os" using oi by (auto dest: findIndex_Some)
      then have "order_ok now (os ! orderIndex)" using assms(2) by simp
      then have x: "order_ok now ?x" by (simp add: order_ok_def)
      have eq: "assignOrder sp tr dsl order (as, os, pool) =
           (as[agentIndex := ?a], os[orderIndex := ?x], removeFirst (\<lambda>a. aid a = aid b) pool)"
        using Some be oi ai by (simp add: assignOrder_def Let_def)
      show ?thesis
        unfolding eq fst_conv snd_conv
        using all_set_update[OF assms(1) a] all_set_update[OF assms(2) x] by blast
    qed
  qed
qed

lemma assignLoop_ok:
  "\<forall>a \<in> set as. agent_ok a \<Longrightarrow> \<forall>x \<in> set os. order_ok now x \<Longrightarrow>
   (\<forall>a \<in> set (fst (assignLoop sp tr dsl pend (as, os, pool))). agent_ok a) \<and>
   (\<forall>x \<in> set (fst (snd (assignLoop sp tr dsl pend (as, os, pool)))). order_ok now x)"
proof (induction pend arbitrary: as os pool)
  case Nil
  then show ?case by simp
next
  case (Cons order pend)
  obtain as' os' pool' where st: "assignOrder sp tr dsl order (as, os, pool) = (as', os', pool')"
    by (cases "assignOrder sp tr dsl order (as, os, pool)") auto
  from assignOrder_ok[OF Cons.prems, of sp tr dsl order pool] st
  have "\<forall>a \<in> set as'. agent_ok a" "\<forall>x \<in> set os'. order_ok now x" by simp_all
  from Cons.IH[OF this] show ?case by (simp add: st)
qed

lemma assign_ok:
  "\<forall>a \<in> set as. agent_ok a \<Longrightarrow> \<forall>x \<in> set os. order_ok now x \<Longrightarrow>
   (\<forall>a \<in> set (fst (assignOrdersToAgentsLogic as os sp tr dsl)). agent_ok a) \<and>
   (\<forall>x \<in> set (snd (assignOrdersToAgentsLogic as os sp tr dsl)). order_ok now x)"
  using assignLoop_ok[of as os now sp tr dsl "filter (\<lambda>x. ostatus x = pending) os"
                        "filter (\<lambda>a. astatus a = available) as"]
  by (simp add: assignOrdersToAgentsLogic_def Let_def split_beta)

lemma newOrder_ok: "order_ok t (newOrder i c t)"
  by (simp add: order_ok_def newOrder_def)

lemma genZone_ok:
  "\<forall>x \<in> set (newOrders g). order_ok t x \<Longrightarrow> \<forall>x \<in> set (newOrders (genZone E t dsl z g)). order_ok t x"
  by (simp add: genZone_def Let_def split_beta newOrder_ok)

lemma genZones_ok:
  "\<forall>x \<in> set (newOrders g). order_ok t x \<Longrightarrow> \<forall>x \<in> set (newOrders (genZones E t dsl zs g)). order_ok t x"
proof (induction zs arbitrary: g)
  case Nil
  then show ?case by simp
next
  case (Cons z zs)
  from Cons.IH[OF genZone_ok[OF Cons.prems]] show ?case by simp
qed

lemma generate_ok:
  "\<forall>x \<in> set (newOrders (generateOrdersLogic E c p t cps dsl k)). order_ok t x"
proof -
  let ?g0 = "\<lparr>newOrders = [], updatedOrderIdCounter = c, totalGeneratedIncrement = 0, nextRandom = k\<rparr>"
  have "\<forall>x \<in> set (newOrders ?g0). order_ok t x" by simp
  from genZones_ok[OF this] show ?thesis
    by (simp add: generateOrdersLogic_def Let_def split_beta newOrder_ok split: option.splits)
qed

lemma order_ok_later: "order_ok now x \<Longrightarrow> now \<le> now' \<Longrightarrow> order_ok now' x"
  by (auto simp: order_ok_def)

lemma step_ok:
  assumes "state_ok s"
  shows "\<exists>s'. runSimulationStep E P cps s = Inr s' \<and> state_ok s'"
proof (cases "isRunning s")
  case False
  with assms show ?thesis by (simp add: runSimulationStep_def)
next
  case True
  let ?t = "currentSimulationTime s + MINUTES_PER_SIMULATION_STEP"
  let ?dsl = "darkStoreLocations s"
  let ?refresh = "(enableDynamicTraffic P \<and> ?t mod MINUTES_PER_SIMULATION_STEP = 0 \<and>
                   (?t div MINUTES_PER_SIMULATION_STEP) mod DYNAMIC_TRAFFIC_UPDATE_INTERVAL_STEPS = 0)"
  let ?dyn = "(if ?refresh then 0.6 + Math_random E 0 * 0.8 else currentDynamicTrafficFactor s)"
  let ?k = "(if ?refresh then 1 else 0)"
  let ?gen = "generateOrdersLogic E (orderIdCounter s) (orderGenProfileId P) ?t cps ?dsl ?k"
  let ?orders1 = "orders s @ newOrders ?gen"
  let ?tf = "(if enableDynamicTraffic P then ?dyn else baseTrafficFactor P)"
  let ?asg = "assignOrdersToAgentsLogic (agents s) ?orders1 (agentSpeedKmph P) ?tf ?dsl"
  let ?mv = "updateAgentsMovementAndStatusLogic E (fst ?asg) (snd ?asg) (agentSpeedKmph P) ?tf ?t ?dsl"
  have ag: "\<forall>a \<in> set (agents s). agent_ok a" using assms by (simp add: state_ok_def)
  have "\<forall>x \<in> set (orders s). order_ok ?t x"
    using assms by (auto simp: state_ok_def mod_step intro: order_ok_later)
  with generate_ok[of E "orderIdCounter s" "orderGenProfileId P" ?t cps ?dsl ?k]
  have o1: "\<forall>x \<in> set ?orders1. order_ok ?t x" by auto
  note asg = assign_ok[OF ag o1, of "agentSpeedKmph P" ?tf ?dsl]
  have acc0: "acc_ok ?t \<lparr>updatedOrders = snd ?asg, deliveredOrdersThisStep = [],
        totalDeliveryTimeIncrement = 0, heatmapPointsToAdd = []\<rparr>"
    using asg by (simp add: acc_ok_def)
  from moveLoop_ok[OF conjunct1[OF asg] acc0, of E "agentSpeedKmph P" ?tf ?dsl]
  have mv: "\<forall>a \<in> set (fst ?mv). agent_ok a" "acc_ok ?t (snd ?mv)"
    by (simp_all add: updateAgentsMovementAndStatusLogic_def)
  have del: "deliveredOrdersThisStep (snd ?mv) = []" "totalDeliveryTimeIncrement (snd ?mv) = 0"
    "\<forall>x \<in> set (updatedOrders (snd ?mv)). order_ok ?t x"
    using mv(2) by (simp_all add: acc_ok_def)
  have fat: "\<forall>a \<in> set (updateAgentFatigueLogic (fst ?mv)). agent_ok a"
    using mv(1) by (rule fatigue_ok)
  let ?s' = "s\<lparr>currentSimulationTime := ?t,
                currentDynamicTrafficFactor := ?dyn,
                orders := updatedOrders (snd ?mv),
                orderIdCounter := updatedOrderIdCounter ?gen,
                totalOrdersGenerated := totalOrdersGenerated s + totalGeneratedIncrement ?gen,
                totalOrdersDelivered := totalOrdersDelivered s,
                totalDeliveryTime := totalDeliveryTime s,
                totalAgentTravelDistance := totalAgentTravelDistance s,
                agents := updateAgentFatigueLogic (fst ?mv)\<rparr>"
  have eq: "runSimulationStep E P cps s = Inr ?s'"
    using True del(1,2) by (simp add: runSimulationStep_def Let_def split_beta)
  have "state_ok ?s'"
    using assms fat del(3) by (simp add: state_ok_def)
  with eq show ?thesis by blast
qed

lemma initial_ok: "state_ok (initialSimState E n cds)"
  by (auto simp: state_ok_def initialSimState_def mkAgents_ok)

lemma reachable_ok: "reachable s \<Longrightarrow> state_ok s"
proof (induction rule: reachable.induct)
  case (init E n cds)
  show ?case by (rule initial_ok)
next
  case (startSim s)
  then show ?case by (simp add: state_ok_def)
next
  case (pauseSim s)
  then show ?case by (simp add: state_ok_def)
next
  case (tick s E P cps s')
  with step_ok[of s E P cps] show ?case by auto
qed

section \<open>A run of two ticks\<close>

lemma exState0_init: "initialSimState (exEnv (1/2)) 1 [] = exState0"
  by (simp add: initialSimState_def exState0_def exAgent0_def exEnv_def generateUniqueId_def
      Math_random_def defaultDarkStoreLocationSim_def numeral_eq_Suc)

lemma ccrBounds_exEnv: "ccrBounds (exEnv r)"
  by (simp add: ccrBounds_def exEnv_def)

lemma ex_generate:
  "generateOrdersLogic (exEnv 0) 0 ''default_uniform_ccr'' 5 [] [defaultDarkStoreLocationSim] 0 =
     \<lparr>newOrders = [exOrder0], updatedOrderIdCounter = 1, totalGeneratedIncrement = 1, nextRandom = 404\<rparr>"
proof -
  have r: "Math_random (exEnv 0) 0 = 0" by (simp add: Math_random_def exEnv_def)
  show ?thesis
    by (simp add: generateOrdersLogic_def Let_def r getRandomPointInCcr_default[OF ccrBounds_exEnv]
        generateUniqueId_def newOrder_def exOrder0_def defaultDarkStoreLocationSim_def)
       (simp add: exEnv_def)
qed

lemma ex_closest:
  "bestDarkStoreForOrder [defaultDarkStoreLocationSim] x = defaultDarkStoreLocationSim"
  by (simp add: bestDarkStoreForOrder_def)

lemma ex_route:
  "generateWaypoints defaultDarkStoreLocationSim defaultDarkStoreLocationSim @
   drop (Suc 0) (generateWaypoints defaultDarkStoreLocationSim defaultDarkStoreLocationSim) = exRoute"
  by (simp add: generateWaypoints_def exRoute_def numeral_eq_Suc)

lemma ex_assign:
  "assignOrdersToAgentsLogic [exAgent0] [exOrder0] 25 1 [defaultDarkStoreLocationSim] =
     ([exAgent1], [exOrder1])"
proof -
  have c: "considered [exAgent0] 25 1 exAgent0"
    by (simp add: considered_def effectiveSpeedOf_def exAgent0_def)
  have pos: "(alat exAgent0, alng exAgent0) = defaultDarkStoreLocationSim"
            "(olat exOrder0, olng exOrder0) = defaultDarkStoreLocationSim"
    by (simp_all add: exAgent0_def exOrder0_def defaultDarkStoreLocationSim_def)
  have st: "astatus exAgent0 = available" "ostatus exOrder0 = pending"
    by (simp_all add: exAgent0_def exOrder0_def)
  show ?thesis
    by (simp add: assignOrdersToAgentsLogic_def assignOrder_def Let_def st c ex_closest pos ex_route
        exAgent1_def exOrder1_def)
       (simp add: exAgent0_def exOrder0_def)
qed

lemma exEnv_distance: "distanceTo (exEnv r) p p = 0"
  by (simp add: exEnv_def getDistanceKm_same)

lemma walk_same_point:
  assumes "routePath a = exRoute" "(alat a, alng a) = defaultDarkStoreLocationSim"
    "currentLegIndex a \<le> 6" "0 < d"
  shows "walkLegs (exEnv r) a d =
           (if currentLegIndex a < 6 then a\<lparr>currentLegIndex := 6, legProgress := 0\<rparr> else a)"
  using assms
proof (induction "6 - currentLegIndex a" arbitrary: a)
  case 0
  then have "currentLegIndex a = 6" by simp
  with 0 show ?case
    by (subst walkLegs.simps) (simp add: exRoute_def)
next
  case (Suc n)
  then have lt: "currentLegIndex a < 6" by simp
  let ?a' = "a\<lparr>currentLegIndex := currentLegIndex a + 1, legProgress := 0\<rparr>"
  have nth: "routePath a ! (currentLegIndex a + 1) = defaultDarkStoreLocationSim"
    using lt Suc.prems(1) by (simp add: exRoute_def)
  have leg: "distanceTo (exEnv r) (alat a, alng a) (routePath a ! (currentLegIndex a + 1)) = 0"
    by (simp only: nth Suc.prems(2) exEnv_distance)
  show ?case
  proof (cases "currentLegIndex a = 5")
    case True
    with Suc.prems leg lt show ?thesis
      by (subst walkLegs.simps) (simp add: exRoute_def Let_def)
  next
    case False
    with lt have lt5: "currentLegIndex a < 5" by simp
    have step: "walkLegs (exEnv r) a d = walkLegs (exEnv r) ?a' d"
      using Suc.prems leg lt5 by (subst walkLegs.simps) (simp add: exRoute_def Let_def)
    have "walkLegs (exEnv r) ?a' d =
           (if currentLegIndex ?a' < 6 then ?a'\<lparr>currentLegIndex := 6, legProgress := 0\<rparr> else ?a')"
      using Suc.hyps(2) Suc.prems lt5 by (intro Suc.hyps(1)) simp_all
    with step lt5 show ?thesis by simp
  qed
qed

lemma exRoute_length [simp]: "length exRoute = 7"
  by (simp add: exRoute_def)

lemma exRoute_find [simp]:
  "find (\<lambda>p. list_ex (\<lambda>d. fst d = fst p \<and> snd d = snd p) [defaultDarkStoreLocationSim]) exRoute =
     Some defaultDarkStoreLocationSim"
  "find (\<lambda>p. fst defaultDarkStoreLocationSim = fst p \<and> snd defaultDarkStoreLocationSim = snd p) exRoute =
     Some defaultDarkStoreLocationSim"
  by (simp_all add: exRoute_def numeral_eq_Suc)

lemma ex_move1:
  "moveAgent (exEnv r) 25 1 5 [defaultDarkStoreLocationSim] exAgent1
      \<lparr>updatedOrders = [exOrder1], deliveredOrdersThisStep = [],
       totalDeliveryTimeIncrement = 0, heatmapPointsToAdd = []\<rparr> =
     (exAgent2, \<lparr>updatedOrders = [exOrder2], deliveredOrdersThisStep = [],
       totalDeliveryTimeIncrement = 0, heatmapPointsToAdd = []\<rparr>)"
proof -
  let ?acc = "\<lparr>updatedOrders = [exOrder1], deliveredOrdersThisStep = [],
       totalDeliveryTimeIncrement = 0, heatmapPointsToAdd = []\<rparr>"
  let ?a2 = "exAgent1\<lparr>timeContinuouslyActive := 5, timeSpentDelivering := 5, totalDistance := 25 / 12\<rparr>"
  have w: "walkLegs (exEnv r) ?a2 (25 / 12) = ?a2\<lparr>currentLegIndex := 6, legProgress := 0\<rparr>"
    by (subst walk_same_point)
       (simp_all add: exAgent1_def exAgent0_def defaultDarkStoreLocationSim_def)
  have idx: "orderIndexOf [exOrder1] (Some ''O1_x'') = Some 0"
    by (simp add: orderIndexOf_def exOrder1_def exOrder0_def)
  have arr: "arrival 5 [defaultDarkStoreLocationSim] (?a2\<lparr>currentLegIndex := 6, legProgress := 0\<rparr>) ?acc =
        ((exAgent2, True), ?acc\<lparr>updatedOrders := [exOrder2]\<rparr>)"
    by (subst arrival_store[where i = 0])
       (simp_all add: exAgent1_def exAgent0_def idx exAgent2_def exOrder2_def,
        simp add: defaultDarkStoreLocationSim_def)
  have st: "astatus exAgent1 \<noteq> available" "astatus exAgent1 \<noteq> at_store"
     "\<not> (length (routePath exAgent1) = 0 \<or>
         int (currentLegIndex exAgent1) \<ge> int (length (routePath exAgent1)) - 1)"
    by (simp_all add: exAgent1_def exAgent0_def)
  have f: "fatigueFactor exAgent1 = 1" "timeContinuouslyActive exAgent1 = 0"
    "timeSpentDelivering exAgent1 = 0" "totalDistance exAgent1 = 0"
    by (simp_all add: exAgent1_def exAgent0_def)
  show ?thesis
    by (simp add: moveAgent_moving[OF st] Let_def f mod_step w arr)
qed

lemma ex_fatigue2: "fatigueAgent exAgent2 = exAgent2"
  by (simp add: fatigueAgent_def exAgent2_def exAgent1_def exAgent0_def)

lemma ex_tick1:
  "runSimulationStep (exEnv 0) exParams [] (exState0\<lparr>isRunning := True\<rparr>) = Inr exState1"
proof -
  have p: "agentSpeedKmph exParams = 25" "orderGenProfileId exParams = ''default_uniform_ccr''"
    "baseTrafficFactor exParams = 1" "enableDynamicTraffic exParams = False"
    by (simp_all add: exParams_def)
  have s: "agents exState0 = [exAgent0]" "orders exState0 = []" "orderIdCounter exState0 = 0"
    "currentSimulationTime exState0 = 0" "darkStoreLocations exState0 = [defaultDarkStoreLocationSim]"
    by (simp_all add: exState0_def)
  show ?thesis
    by (simp add: runSimulationStep_def Let_def p s mod_step ex_generate ex_assign
          updateAgentsMovementAndStatusLogic_def ex_move1 updateAgentFatigueLogic_def ex_fatigue2
          exState1_def)
       (simp add: exState0_def)
qed

lemma ex_generate_none:
  "generateOrdersLogic (exEnv (1/2)) c ''default_uniform_ccr'' t [] dsl 0 =
     \<lparr>newOrders = [], updatedOrderIdCounter = c, totalGeneratedIncrement = 0, nextRandom = 1\<rparr>"
proof -
  have r: "Math_random (exEnv (1/2)) 0 = 1/2" by (simp add: Math_random_def exEnv_def)
  show ?thesis by (simp add: generateOrdersLogic_def Let_def r)
qed

lemma ex_move2:
  "moveAgent E 25 1 10 dsl exAgent2
      \<lparr>updatedOrders = [exOrder2], deliveredOrdersThisStep = [],
       totalDeliveryTimeIncrement = 0, heatmapPointsToAdd = []\<rparr> =
     (exAgent3, \<lparr>updatedOrders = [exOrder3], deliveredOrdersThisStep = [],
       totalDeliveryTimeIncrement = 0, heatmapPointsToAdd = []\<rparr>)"
proof -
  have st: "astatus exAgent2 = at_store" by (simp add: exAgent2_def)
  have idx: "orderIndexOf [exOrder2] (currentOrder exAgent2) = Some 0"
    by (simp add: orderIndexOf_def exOrder2_def exOrder1_def exOrder0_def
        exAgent2_def exAgent1_def exAgent0_def)
  show ?thesis
    by (simp add: moveAgent_at_store[OF st] Let_def idx mod_step exOrder3_def)
       (simp add: exAgent3_def exAgent2_def exAgent1_def exAgent0_def)
qed

lemma ex_fatigue3: "fatigueAgent exAgent3 = exAgent3"
  by (simp add: fatigueAgent_def exAgent3_def exAgent2_def exAgent1_def exAgent0_def)

lemma ex_tick2:
  "runSimulationStep (exEnv (1/2)) exParams [] exState1 = Inr exState2"
proof -
  have p: "agentSpeedKmph exParams = 25" "orderGenProfileId exParams = ''default_uniform_ccr''"
    "baseTrafficFactor exParams = 1" "enableDynamicTraffic exParams = False"
    by (simp_all add: exParams_def)
  have s: "agents exState1 = [exAgent2]" "orders exState1 = [exOrder2]" "orderIdCounter exState1 = 1"
    "currentSimulationTime exState1 = 5" "darkStoreLocations exState1 = [defaultDarkStoreLocationSim]"
    "isRunning exState1" "totalOrdersGenerated exState1 = 1"
    by (simp_all add: exState1_def exState0_def)
  have a: "assignOrdersToAgentsLogic [exAgent2] [exOrder2] 25 1 [defaultDarkStoreLocationSim] =
       ([exAgent2], [exOrder2])"
    by (simp add: assignOrdersToAgentsLogic_def exOrder2_def exOrder1_def exOrder0_def)
  show ?thesis
    by (simp add: runSimulationStep_def Let_def p s mod_step ex_generate_none a
          updateAgentsMovementAndStatusLogic_def ex_move2 updateAgentFatigueLogic_def ex_fatigue3
          exState2_def)
qed

lemma reachable_exState0: "reachable exState0"
  by (subst exState0_init[symmetric]) (rule reachable.init)

lemma reachable_exState1: "reachable exState1"
  using reachable.tick[OF reachable.startSim[OF reachable_exState0] ex_tick1] .

lemma reachable_exState2: "reachable exState2"
  using reachable.tick[OF reachable_exState1 ex_tick2] .

section \<open>The idle equivalences are preserved\<close>

lemma agent_ok_idle: "agent_ok a \<Longrightarrow> idleEquivalence a"
  by (auto simp: agent_ok_def idleEquivalence_def)

lemma idle_counters [simp]:
  "idleEquivalence (a\<lparr>timeSpentIdle := i\<rparr>) = idleEquivalence a"
  "idleEquivalence (a\<lparr>timeContinuouslyActive := c\<rparr>) = idleEquivalence a"
  "idleEquivalence (a\<lparr>timeSpentDelivering := d\<rparr>) = idleEquivalence a"
  "idleEquivalence (a\<lparr>timeSpentAtStore := t\<rparr>) = idleEquivalence a"
  "idleEquivalence (a\<lparr>totalDistance := x\<rparr>) = idleEquivalence a"
  "idleEquivalence (a\<lparr>legProgress := p\<rparr>) = idleEquivalence a"
  "idleEquivalence (a\<lparr>fatigueFactor := f\<rparr>) = idleEquivalence a"
  "idleEquivalence (a\<lparr>consecutiveDeliveriesSinceRest := n\<rparr>) = idleEquivalence a"
  "idleEquivalence (a\<lparr>alat := la\<rparr>) = idleEquivalence a"
  "idleEquivalence (a\<lparr>alng := lo\<rparr>) = idleEquivalence a"
  by (simp_all add: idleEquivalence_def)

lemma idle_released:
  "idleEquivalence (a\<lparr>astatus := available, currentOrder := None, routePath := []\<rparr>)"
  by (simp add: idleEquivalence_def)

lemma arrival_idle:
  assumes "idleEquivalence a"
  shows "idleEquivalence (fst (fst (arrival now dsl a acc)))"
proof (cases "int (currentLegIndex a) \<ge> int (length (routePath a)) - 1")
  case False
  with assms show ?thesis by (simp add: arrival_not_at_end)
next
  case at_end: True
  show ?thesis
  proof (cases "orderIndexOf (updatedOrders acc) (currentOrder a)")
    case None
    with assms show ?thesis by (simp add: arrival_lost[OF at_end None] idle_released)
  next
    case (Some i)
    show ?thesis
    proof (cases "astatus a = to_store")
      case True
      let ?sc = "find (\<lambda>p. list_ex (\<lambda>d. fst d = fst p \<and> snd d = snd p) dsl) (routePath a)"
      have "idleEquivalence (a\<lparr>astatus := at_store\<rparr>)"
        using assms True by (simp add: idleEquivalence_def)
      then have "idleEquivalence ((case ?sc of Some sc \<Rightarrow> a\<lparr>astatus := at_store, alat := fst sc, alng := snd sc\<rparr>
                     | None \<Rightarrow> a\<lparr>astatus := at_store\<rparr>)\<lparr>legProgress := 0\<rparr>)"
        by (cases ?sc) simp_all
      then show ?thesis by (simp add: arrival_store[OF at_end Some True])
    next
      case ns: False
      show ?thesis
      proof (cases "astatus a = to_customer")
        case True
        have "fst (fst (arrival now dsl a acc)) =
            a\<lparr>astatus := available, alat := olat (updatedOrders acc ! i), alng := olng (updatedOrders acc ! i),
              deliveriesCompleted := deliveriesCompleted a + 1,
              consecutiveDeliveriesSinceRest := consecutiveDeliveriesSinceRest a + 1,
              currentOrder := None, routePath := []\<rparr>"
          using at_end Some True by (simp add: arrival_def Let_def)
        then show ?thesis by (simp add: idleEquivalence_def)
      next
        case False
        with ns at_end Some have "fst (fst (arrival now dsl a acc)) = a"
          by (simp add: arrival_def Let_def)
        with assms show ?thesis by simp
      qed
    qed
  qed
qed

lemma idle_same_job: "same_job b a \<Longrightarrow> idleEquivalence a \<Longrightarrow> idleEquivalence b"
  by (simp add: same_job_def idleEquivalence_def)

lemma moveAgent_idleEquivalence:
  assumes "idleEquivalence a"
  shows "idleEquivalence (fst (moveAgent E sp tr now dsl a acc))"
proof (cases "astatus a = available")
  case True
  with assms show ?thesis by (simp add: moveAgent_idle)
next
  case busy: False
  show ?thesis
  proof (cases "astatus a = at_store")
    case True
    let ?a1 = "a\<lparr>timeContinuouslyActive := timeContinuouslyActive a + MINUTES_PER_SIMULATION_STEP,
                      timeSpentAtStore := timeSpentAtStore a + MINUTES_PER_SIMULATION_STEP,
                      legProgress := legProgress a + real_of_int MINUTES_PER_SIMULATION_STEP\<rparr>"
    have tc: "idleEquivalence (?a1\<lparr>astatus := to_customer, legProgress := 0\<rparr>)"
      using assms True by (simp add: idleEquivalence_def)
    show ?thesis
      using assms tc
      by (cases "orderIndexOf (updatedOrders acc) (currentOrder a)")
         (simp_all add: moveAgent_at_store[OF True] Let_def idle_released)
  next
    case moving: False
    show ?thesis
    proof (cases "length (routePath a) = 0 \<or> int (currentLegIndex a) \<ge> int (length (routePath a)) - 1")
      case True
      with assms show ?thesis by (simp add: moveAgent_guard[OF busy moving True])
    next
      case go: False
      let ?a1 = "a\<lparr>timeContinuouslyActive := timeContinuouslyActive a + MINUTES_PER_SIMULATION_STEP,
                      timeSpentDelivering := timeSpentDelivering a + MINUTES_PER_SIMULATION_STEP\<rparr>"
      let ?d = "((sp * fatigueFactor a * tr) / 60) * real_of_int MINUTES_PER_SIMULATION_STEP"
      let ?a2 = "?a1\<lparr>totalDistance := totalDistance a + ?d\<rparr>"
      let ?w = "walkLegs E ?a2 ?d"
      have "idleEquivalence ?a2" using assms by simp
      then have "idleEquivalence ?w" using walkLegs_job[of E ?a2 ?d] idle_same_job by blast
      from arrival_idle[OF this, of now dsl acc] assms
      show ?thesis by (simp add: moveAgent_moving[OF busy moving go] Let_def)
    qed
  qed
qed

lemma moveLoop_idleEquivalence:
  "\<forall>a \<in> set as. idleEquivalence a \<Longrightarrow>
   \<forall>a \<in> set (fst (moveLoop E sp tr now dsl as acc)). idleEquivalence a"
proof (induction as arbitrary: acc)
  case Nil
  then show ?case by simp
next
  case (Cons a as)
  have "idleEquivalence (fst (moveAgent E sp tr now dsl a acc))"
    using moveAgent_idleEquivalence Cons.prems by simp
  moreover have "\<forall>b \<in> set (fst (moveLoop E sp tr now dsl as (snd (moveAgent E sp tr now dsl a acc)))).
                   idleEquivalence b"
    using Cons.IH Cons.prems by simp
  ultimately show ?case by (simp add: split_beta)
qed

lemma assignOrder_idleEquivalence:
  assumes "\<forall>a \<in> set as. idleEquivalence a"
  shows "\<forall>a \<in> set (fst (assignOrder sp tr dsl order (as, os, pool))). idleEquivalence a"
proof (cases "bestAgentLoop as sp tr (bestDarkStoreForOrder dsl order) order pool None")
  case None
  with assms show ?thesis by (simp add: assignOrder_def)
next
  case (Some be)
  obtain b eta where be: "be = (b, eta)" by (cases be)
  show ?thesis
  proof (cases "findIndex (\<lambda>x. oid x = oid order) os")
    case None
    with assms Some be show ?thesis by (simp add: assignOrder_def)
  next
    case oi: (Some orderIndex)
    show ?thesis
    proof (cases "findIndex (\<lambda>a. aid a = aid b) as")
      case None
      with assms Some be oi show ?thesis by (simp add: assignOrder_def)
    next
      case ai: (Some agentIndex)
      let ?route = "generateWaypoints (alat b, alng b) (bestDarkStoreForOrder dsl order) @
                    drop 1 (generateWaypoints (bestDarkStoreForOrder dsl order) (olat order, olng order))"
      let ?a = "(as ! agentIndex)\<lparr>astatus := to_store, currentOrder := Some (oid order),
                   routePath := ?route, currentLegIndex := 0, legProgress := 0\<rparr>"
      have "?route \<noteq> []" by (simp add: generateWaypoints_def)
      then have a: "idleEquivalence ?a" by (simp add: idleEquivalence_def)
      have eq: "fst (assignOrder sp tr dsl order (as, os, pool)) = as[agentIndex := ?a]"
        using Some be oi ai by (simp add: assignOrder_def Let_def)
      show ?thesis
        unfolding eq using all_set_update[OF assms a] by blast
    qed
  qed
qed

lemma assignLoop_idleEquivalence:
  "\<forall>a \<in> set as. idleEquivalence a \<Longrightarrow>
   \<forall>a \<in> set (fst (assignLoop sp tr dsl pend (as, os, pool))). idleEquivalence a"
proof (induction pend arbitrary: as os pool)
  case Nil
  then show ?case by simp
next
  case (Cons order pend)
  obtain as' os' pool' where st: "assignOrder sp tr dsl order (as, os, pool) = (as', os', pool')"
    by (cases "assignOrder sp tr dsl order (as, os, pool)") auto
  from assignOrder_idleEquivalence[OF Cons.prems, of sp tr dsl order os pool] st
  have "\<forall>a \<in> set as'. idleEquivalence a" by simp
  from Cons.IH[OF this] show ?case by (simp add: st)
qed

lemma assign_idleEquivalence:
  "\<forall>a \<in> set as. idleEquivalence a \<Longrightarrow>
   \<forall>a \<in> set (fst (assignOrdersToAgentsLogic as os sp tr dsl)). idleEquivalence a"
  using assignLoop_idleEquivalence[of as sp tr dsl "filter (\<lambda>x. ostatus x = pending) os" os
                        "filter (\<lambda>a. astatus a = available) as"]
  by (simp add: assignOrdersToAgentsLogic_def Let_def split_beta)

lemma fatigueAgent_idleEquivalence: "idleEquivalence (fatigueAgent a) = idleEquivalence a"
  by (simp add: fatigueAgent_def Let_def)

section \<open>Counting generated orders\<close>

lemma genZone_at_most_one:
  "length (newOrders (genZone E t dsl z g)) \<le> length (newOrders g) + 1"
  by (simp add: genZone_def Let_def split_beta)

lemma genZone_count:
  "length (newOrders (genZone E t dsl z g)) =
     length (newOrders g) +
       (if real_of_int t \<ge> startTime z * 60 \<and> real_of_int t \<le> endTime z * 60 \<and>
           Math_random E (nextRandom g + 1) < expectedThisStep E z (nextRandom g)
        then 1 else 0)"
  by (simp add: genZone_def Let_def split_beta expectedThisStep_def)

lemma rush_generate:
  "length (newOrders (generateOrdersLogic E 0 ''rush'' 60 [rushProfile] dsl k)) = 1"
proof -
  have r: "Math_random E (Suc k) < 3"
    using Math_random_range[of E "Suc k"] by linarith
  have e: "expectedThisStep E rushZone k = 3"
    by (simp add: expectedThisStep_def rushZone_def mod_step)
  show ?thesis
    using r e by (simp add: generateOrdersLogic_def Let_def rushProfile_def genZone_count)
                 (simp add: rushZone_def)
qed

lemma pushOrders_count:
  "gGeneratedOrders (pushOrders E c t n g) = gGeneratedOrders g + n \<and>
   length (gOrders (pushOrders E c t n g)) = length (gOrders g) + n"
  by (induction n arbitrary: g) (simp_all add: Let_def split_beta)

lemma genStep_count:
  "gGeneratedOrders g = length (gOrders g) \<Longrightarrow>
   gGeneratedOrders (genStep E p d c t g) = length (gOrders (genStep E p d c t g))"
  by (simp add: genStep_def Let_def split_beta pushOrders_count)

lemma genLoop_count:
  "gGeneratedOrders g = length (gOrders g) \<Longrightarrow>
   gGeneratedOrders (genLoop E p d c m t g) = length (gOrders (genLoop E p d c m t g))"
proof (induction E p d c m t g rule: genLoop.induct)
  case (1 E p d c m t g)
  show ?case
  proof (cases "real_of_int t < m")
    case True
    have "genLoop E p d c m t g =
          genLoop E p d c m (t + MINUTES_PER_SIMULATION_STEP) (genStep E p d c t g)"
      using True by (subst genLoop.simps) simp
    with 1(1)[OF True genStep_count[OF 1(2)]] show ?thesis by simp
  next
    case False
    then have "genLoop E p d c m t g = g" by (subst genLoop.simps) simp
    with 1(2) show ?thesis by simp
  qed
qed

lemma generatedOf_count:
  "gGeneratedOrders (generatedOf E cps coords d m k) = length (gOrders (generatedOf E cps coords d m k))"
  unfolding generatedOf_def by (rule genLoop_count) simp

lemma run_generated:
  "generatedOrders (simplifiedSimulationRun E cps n coords d m sla k) =
     max 1 (length (gOrders (generatedOf E cps coords d m k)))"
  by (cases "gOrders (generatedOf E cps coords d m k)")
     (simp_all add: simplifiedSimulationRun_def Let_def generatedOf_count)

lemma run_delivered_none:
  "gOrders (generatedOf E cps coords d m k) = [] \<Longrightarrow>
   deliveredOrders (simplifiedSimulationRun E cps n coords d m sla k) = 0"
  by (simp add: simplifiedSimulationRun_def Let_def)

lemma generatedOf_no_horizon:
  "generatedOf E cps coords d 0 k = \<lparr>gOrders = [], gOrderIdCounter = 0, gGeneratedOrders = 0, gNext = k\<rparr>"
  unfolding generatedOf_def by (subst genLoop.simps) simp

section \<open>The choice of store and agent\<close>

















section \<open>The law of the timestamps is preserved\<close>

lemma timestampsOrdered_later:
  "timestampsOrdered now x \<Longrightarrow> now \<le> now' \<Longrightarrow> timestampsOrdered now' x"
  by (auto simp: timestampsOrdered_def split: option.splits)

lemma order_ok_stamps: "order_ok now x \<Longrightarrow> timestampsOrdered now x"
  by (auto simp: order_ok_def timestampsOrdered_def split: option.splits)

lemma orderIndexOf_Some:
  "orderIndexOf os cur = Some i \<Longrightarrow> i < length os \<and> cur = Some (oid (os ! i))"
  by (auto simp: orderIndexOf_def split: option.splits dest: findIndex_Some)

lemma stamps_store:
  "stampsDuring R now x \<Longrightarrow> oid x \<in> R \<Longrightarrow> stampsDuring R now (x\<lparr>storeArrivalTime := Some now\<rparr>)"
  by (auto simp: stampsDuring_def timestampsOrdered_def split: option.splits)

lemma stamps_customer:
  "stampsDuring R now x \<Longrightarrow>
   stampsDuring R now (x\<lparr>ostatus := delivered, customerArrivalTime := Some now,
                          deliveryTime := Some (now - timePlaced x)\<rparr>)"
  by (auto simp: stampsDuring_def timestampsOrdered_def split: option.splits)

lemma stamps_status:
  "stampsDuring R now x \<Longrightarrow> st \<noteq> delivered \<Longrightarrow> stampsDuring R now (x\<lparr>ostatus := st\<rparr>)"
  by (auto simp: stampsDuring_def timestampsOrdered_def split: option.splits)

lemma arrival_stamps:
  assumes J: "\<forall>x \<in> set (updatedOrders acc). stampsDuring R now x"
    and R: "\<And>c. astatus a = to_store \<Longrightarrow> currentOrder a = Some c \<Longrightarrow> c \<in> R"
  shows "\<forall>x \<in> set (updatedOrders (snd (arrival now dsl a acc))). stampsDuring R now x"
proof (cases "int (currentLegIndex a) \<ge> int (length (routePath a)) - 1")
  case False
  with J show ?thesis by (simp add: arrival_not_at_end)
next
  case e: True
  show ?thesis
  proof (cases "orderIndexOf (updatedOrders acc) (currentOrder a)")
    case None
    with J show ?thesis by (simp add: arrival_lost[OF e])
  next
    case (Some i)
    let ?os = "updatedOrders acc"
    from orderIndexOf_Some[OF Some]
    have i: "i < length ?os" and cur: "currentOrder a = Some (oid (?os ! i))" by simp_all
    from i J have x: "stampsDuring R now (?os ! i)" by simp
    show ?thesis
    proof (cases "astatus a = to_store")
      case True
      from R[OF True cur] have "oid (?os ! i) \<in> R" .
      from stamps_store[OF x this] all_set_update[OF J]
      show ?thesis by (simp add: arrival_store[OF e Some True])
    next
      case ns: False
      show ?thesis
      proof (cases "astatus a = to_customer")
        case True
        from stamps_customer[OF x] all_set_update[OF J]
        show ?thesis by (simp add: arrival_customer[OF e Some True])
      next
        case False
        with ns e Some J show ?thesis by (simp add: arrival_def Let_def)
      qed
    qed
  qed
qed

lemma moveAgent_stamps:
  assumes J: "\<forall>x \<in> set (updatedOrders acc). stampsDuring R now x"
    and R: "\<And>c. astatus a = to_store \<Longrightarrow> currentOrder a = Some c \<Longrightarrow> c \<in> R"
  shows "\<forall>x \<in> set (updatedOrders (snd (moveAgent E sp tr now dsl a acc))). stampsDuring R now x"
proof (cases "astatus a = available")
  case True
  with J show ?thesis by (simp add: moveAgent_idle)
next
  case busy: False
  show ?thesis
  proof (cases "astatus a = at_store")
    case True
    show ?thesis
    proof (cases "orderIndexOf (updatedOrders acc) (currentOrder a)")
      case None
      with J show ?thesis by (simp add: moveAgent_at_store[OF True] Let_def)
    next
      case (Some i)
      from orderIndexOf_Some[OF Some] J
      have "stampsDuring R now (updatedOrders acc ! i)" by simp
      from stamps_status[OF this, of picked_up] all_set_update[OF J]
      show ?thesis using J by (simp add: moveAgent_at_store[OF True] Let_def Some)
    qed
  next
    case moving: False
    show ?thesis
    proof (cases "length (routePath a) = 0 \<or> int (currentLegIndex a) \<ge> int (length (routePath a)) - 1")
      case True
      with J show ?thesis by (simp add: moveAgent_guard[OF busy moving True])
    next
      case go: False
      let ?a1 = "a\<lparr>timeContinuouslyActive := timeContinuouslyActive a + MINUTES_PER_SIMULATION_STEP,
                      timeSpentDelivering := timeSpentDelivering a + MINUTES_PER_SIMULATION_STEP\<rparr>"
      let ?d = "((sp * fatigueFactor a * tr) / 60) * real_of_int MINUTES_PER_SIMULATION_STEP"
      let ?a2 = "?a1\<lparr>totalDistance := totalDistance a + ?d\<rparr>"
      let ?w = "walkLegs E ?a2 ?d"
      have job: "astatus ?w = astatus a" "currentOrder ?w = currentOrder a"
        using walkLegs_job[of E ?a2 ?d] by (simp_all add: same_job_def)
      have Rw: "\<And>c. astatus ?w = to_store \<Longrightarrow> currentOrder ?w = Some c \<Longrightarrow> c \<in> R"
        by (rule R; simp only: job)
      from arrival_stamps[OF J Rw, where dsl = dsl] J show ?thesis by (simp add: moveAgent_moving[OF busy moving go] Let_def)
    qed
  qed
qed

lemma moveLoop_stamps:
  "\<forall>x \<in> set (updatedOrders acc). stampsDuring R now x \<Longrightarrow>
   \<forall>a \<in> set as. astatus a = to_store \<longrightarrow> (\<forall>c. currentOrder a = Some c \<longrightarrow> c \<in> R) \<Longrightarrow>
   \<forall>x \<in> set (updatedOrders (snd (moveLoop E sp tr now dsl as acc))). stampsDuring R now x"
proof (induction as arbitrary: acc)
  case Nil
  then show ?case by simp
next
  case (Cons a as)
  have "\<forall>x \<in> set (updatedOrders (snd (moveAgent E sp tr now dsl a acc))). stampsDuring R now x"
    using Cons.prems by (intro moveAgent_stamps) simp_all
  from Cons.IH[OF this] Cons.prems(2) show ?case by (simp add: split_beta)
qed

lemma movement_stamps:
  assumes "list_all (timestampsOrdered now) os" "now \<le> now'" "storeRunsOpen as os"
  shows "list_all (timestampsOrdered now')
           (updatedOrders (snd (updateAgentsMovementAndStatusLogic E as os sp tr now' dsl)))"
proof -
  let ?R = "{c. \<exists>a \<in> set as. astatus a = to_store \<and> currentOrder a = Some c}"
  have "\<forall>x \<in> set os. stampsDuring ?R now' x"
    using assms
    by (auto simp: stampsDuring_def storeRunsOpen_def list_all_iff intro: timestampsOrdered_later)
  then have "\<forall>x \<in> set (updatedOrders (snd (moveLoop E sp tr now' dsl as
                 \<lparr>updatedOrders = os, deliveredOrdersThisStep = [],
                  totalDeliveryTimeIncrement = 0, heatmapPointsToAdd = []\<rparr>))). stampsDuring ?R now' x"
    by (intro moveLoop_stamps) auto
  then show ?thesis
    by (simp add: updateAgentsMovementAndStatusLogic_def list_all_iff stampsDuring_def)
qed

lemma assignOrder_stamps:
  assumes "\<forall>x \<in> set os. timestampsOrdered now x"
  shows "\<forall>x \<in> set (fst (snd (assignOrder sp tr dsl order (as, os, pool)))). timestampsOrdered now x"
proof (cases "bestAgentLoop as sp tr (bestDarkStoreForOrder dsl order) order pool None")
  case None
  with assms show ?thesis by (simp add: assignOrder_def)
next
  case (Some be)
  obtain b eta where be: "be = (b, eta)" by (cases be)
  show ?thesis
  proof (cases "findIndex (\<lambda>x. oid x = oid order) os")
    case None
    with assms Some be show ?thesis by (simp add: assignOrder_def)
  next
    case oi: (Some orderIndex)
    show ?thesis
    proof (cases "findIndex (\<lambda>a. aid a = aid b) as")
      case None
      with assms Some be oi show ?thesis by (simp add: assignOrder_def)
    next
      case ai: (Some agentIndex)
      let ?x = "(os ! orderIndex)\<lparr>ostatus := assigned, assignedAgentId := Some (aid b)\<rparr>"
      have "orderIndex < length os" using oi by (auto dest: findIndex_Some)
      then have "timestampsOrdered now (os ! orderIndex)" using assms by simp
      then have x: "timestampsOrdered now ?x"
        by (auto simp: timestampsOrdered_def split: option.splits)
      have eq: "fst (snd (assignOrder sp tr dsl order (as, os, pool))) = os[orderIndex := ?x]"
        using Some be oi ai by (simp add: assignOrder_def Let_def)
      show ?thesis
        unfolding eq using all_set_update[OF assms x] by blast
    qed
  qed
qed

lemma assignLoop_stamps:
  "\<forall>x \<in> set os. timestampsOrdered now x \<Longrightarrow>
   \<forall>x \<in> set (fst (snd (assignLoop sp tr dsl pend (as, os, pool)))). timestampsOrdered now x"
proof (induction pend arbitrary: as os pool)
  case Nil
  then show ?case by simp
next
  case (Cons order pend)
  obtain as' os' pool' where st: "assignOrder sp tr dsl order (as, os, pool) = (as', os', pool')"
    by (cases "assignOrder sp tr dsl order (as, os, pool)") auto
  from assignOrder_stamps[OF Cons.prems, of sp tr dsl order as pool] st
  have "\<forall>x \<in> set os'. timestampsOrdered now x" by simp
  from Cons.IH[OF this] show ?case by (simp add: st)
qed

lemma assign_stamps:
  "list_all (timestampsOrdered now) os \<Longrightarrow>
   list_all (timestampsOrdered now) (snd (assignOrdersToAgentsLogic as os sp tr dsl))"
  using assignLoop_stamps[of os now sp tr dsl "filter (\<lambda>x. ostatus x = pending) os" as
                        "filter (\<lambda>a. astatus a = available) as"]
  by (simp add: assignOrdersToAgentsLogic_def Let_def split_beta list_all_iff)

lemma generate_stamps:
  "list_all (timestampsOrdered t) (newOrders (generateOrdersLogic E c p t cps dsl k))"
  using generate_ok[of E c p t cps dsl k] by (simp add: list_all_iff order_ok_stamps)

lemma ex_courier:
  assumes "updatedOrders acc = [doneOrder, carriedOrder, awaitedOrder]"
  shows "updatedOrders (snd (moveAgent (exEnv r) 25 1 25 [defaultDarkStoreLocationSim] courier acc)) =
           [doneOrder, deliveredOrder, awaitedOrder]"
proof -
  let ?a2 = "courier\<lparr>timeContinuouslyActive := 5, timeSpentDelivering := 5, totalDistance := 25 / 12\<rparr>"
  have w: "walkLegs (exEnv r) ?a2 (25 / 12) = ?a2\<lparr>currentLegIndex := 6, legProgress := 0\<rparr>"
    by (subst walk_same_point)
       (simp_all add: courier_def exAgent1_def exAgent0_def defaultDarkStoreLocationSim_def)
  have idx: "orderIndexOf [doneOrder, carriedOrder, awaitedOrder] (Some ''O2_x'') = Some 1"
    by (simp add: orderIndexOf_def doneOrder_def carriedOrder_def exOrder0_def)
  have tp: "timePlaced carriedOrder = 10"
    by (simp add: carriedOrder_def)
  have arr: "updatedOrders (snd (arrival 25 [defaultDarkStoreLocationSim]
                 (?a2\<lparr>currentLegIndex := 6, legProgress := 0\<rparr>) acc)) =
             [doneOrder, deliveredOrder, awaitedOrder]"
    by (subst arrival_customer[where i = 1])
       (simp_all add: assms courier_def exAgent1_def exAgent0_def idx deliveredOrder_def tp)
  have st: "astatus courier \<noteq> available" "astatus courier \<noteq> at_store"
     "\<not> (length (routePath courier) = 0 \<or>
         int (currentLegIndex courier) \<ge> int (length (routePath courier)) - 1)"
    by (simp_all add: courier_def exAgent1_def exAgent0_def)
  have f: "fatigueFactor courier = 1" "timeContinuouslyActive courier = 0"
    "timeSpentDelivering courier = 0" "totalDistance courier = 0"
    by (simp_all add: courier_def exAgent1_def exAgent0_def)
  show ?thesis
    by (simp add: moveAgent_moving[OF st] Let_def f mod_step w arr)
qed

lemma ex_fetcher:
  assumes "updatedOrders acc = [doneOrder, deliveredOrder, awaitedOrder]"
  shows "updatedOrders (snd (moveAgent (exEnv r) 25 1 25 [defaultDarkStoreLocationSim] fetcher acc)) =
           [doneOrder, deliveredOrder, fetchedOrder]"
proof -
  let ?a2 = "fetcher\<lparr>timeContinuouslyActive := 5, timeSpentDelivering := 5, totalDistance := 25 / 12\<rparr>"
  have w: "walkLegs (exEnv r) ?a2 (25 / 12) = ?a2\<lparr>currentLegIndex := 6, legProgress := 0\<rparr>"
    by (subst walk_same_point)
       (simp_all add: fetcher_def exAgent1_def exAgent0_def defaultDarkStoreLocationSim_def)
  have idx: "orderIndexOf [doneOrder, deliveredOrder, awaitedOrder] (Some ''O3_x'') = Some 2"
    by (simp add: orderIndexOf_def doneOrder_def deliveredOrder_def carriedOrder_def
        awaitedOrder_def exOrder0_def)
  have arr: "updatedOrders (snd (arrival 25 [defaultDarkStoreLocationSim]
                 (?a2\<lparr>currentLegIndex := 6, legProgress := 0\<rparr>) acc)) =
             [doneOrder, deliveredOrder, fetchedOrder]"
    by (subst arrival_store[where i = 2])
       (simp_all add: assms fetcher_def exAgent1_def exAgent0_def idx fetchedOrder_def)
  have st: "astatus fetcher \<noteq> available" "astatus fetcher \<noteq> at_store"
     "\<not> (length (routePath fetcher) = 0 \<or>
         int (currentLegIndex fetcher) \<ge> int (length (routePath fetcher)) - 1)"
    by (simp_all add: fetcher_def exAgent1_def exAgent0_def)
  have f: "fatigueFactor fetcher = 1" "timeContinuouslyActive fetcher = 0"
    "timeSpentDelivering fetcher = 0" "totalDistance fetcher = 0"
    by (simp_all add: fetcher_def exAgent1_def exAgent0_def)
  show ?thesis
    by (simp add: moveAgent_moving[OF st] Let_def f mod_step w arr)
qed

lemma ex_board:
  "updatedOrders (snd (updateAgentsMovementAndStatusLogic (exEnv r) [courier, fetcher]
       [doneOrder, carriedOrder, awaitedOrder] 25 1 25 [defaultDarkStoreLocationSim])) =
     [doneOrder, deliveredOrder, fetchedOrder]"
  by (simp add: updateAgentsMovementAndStatusLogic_def split_beta ex_courier ex_fetcher)

lemma ex_board_ok:
  "list_all (timestampsOrdered 20) [doneOrder, carriedOrder, awaitedOrder]"
  "storeRunsOpen [courier, fetcher] [doneOrder, carriedOrder, awaitedOrder]"
  by (simp_all add: timestampsOrdered_def storeRunsOpen_def doneOrder_def carriedOrder_def
      awaitedOrder_def exOrder0_def courier_def fetcher_def exAgent1_def exAgent0_def)

section \<open>Claims about the simulation\<close>

text \<open>
  C1. The claim: when an agent at the store has waited the handling time and its order
  exists, the step sets the order to \<open>picked_up\<close>, the agent to \<open>to_customer\<close>, and resets
  both the leg index and the leg progress to 0. The code resets the leg progress only.
  Evaluated at the agent of \<open>exState1\<close> (at the store, at the last waypoint of its route of
  7): the order is picked up, the agent is \<open>to_customer\<close> with leg progress 0, and the leg
  index is still 6.
\<close>

theorem pickup_keeps_leg_index:
  "(let r = moveAgent (exEnv (1/2)) 25 1 10 [defaultDarkStoreLocationSim] exAgent2
              \<lparr>updatedOrders = [exOrder2], deliveredOrdersThisStep = [],
               totalDeliveryTimeIncrement = 0, heatmapPointsToAdd = []\<rparr>
    in astatus exAgent2 = at_store \<and> astatus (fst r) = to_customer \<and> legProgress (fst r) = 0 \<and>
       map ostatus (updatedOrders (snd r)) = [picked_up] \<and>
       length (routePath (fst r)) = 7 \<and> currentLegIndex (fst r) = 6)"
  by (simp add: ex_move2 Let_def)
     (simp add: exAgent3_def exAgent2_def exOrder3_def exAgent1_def exAgent0_def)

text \<open>
  C2. In every reachable state no order is \<open>delivered\<close> and \<open>totalOrdersDelivered\<close> is 0:
  an agent that is \<open>to_customer\<close> is already at the last waypoint of its route, so the
  guard at the top of the movement branch returns, and the step only adds to the agent's
  continuous active time.
\<close>

theorem delivery_never_happens:
  assumes "reachable s"
  shows "totalOrdersDelivered s = 0 \<and> (\<forall>x \<in> set (orders s). ostatus x \<noteq> delivered) \<and>
         (\<forall>a \<in> set (agents s). astatus a = to_customer \<longrightarrow>
            int (currentLegIndex a) \<ge> int (length (routePath a)) - 1 \<and>
            (\<forall>E sp tr now dsl acc. moveAgent E sp tr now dsl a acc =
               (a\<lparr>timeContinuouslyActive := timeContinuouslyActive a + MINUTES_PER_SIMULATION_STEP\<rparr>, acc)))"
proof -
  from assms have ok: "state_ok s" by (rule reachable_ok)
  have "\<forall>x \<in> set (orders s). ostatus x \<noteq> delivered"
    using ok by (simp add: state_ok_def order_ok_def)
  moreover have "totalOrdersDelivered s = 0" using ok by (simp add: state_ok_def)
  moreover have "\<forall>a \<in> set (agents s). astatus a = to_customer \<longrightarrow>
            int (currentLegIndex a) \<ge> int (length (routePath a)) - 1 \<and>
            (\<forall>E sp tr now dsl acc. moveAgent E sp tr now dsl a acc =
               (a\<lparr>timeContinuouslyActive := timeContinuouslyActive a + MINUTES_PER_SIMULATION_STEP\<rparr>, acc))"
  proof (intro ballI impI)
    fix a assume a: "a \<in> set (agents s)" "astatus a = to_customer"
    then have "agent_ok a" using ok by (simp add: state_ok_def)
    with a(2) have g: "int (currentLegIndex a) \<ge> int (length (routePath a)) - 1"
      by (simp add: agent_ok_def)
    have st: "astatus a \<noteq> available" "astatus a \<noteq> at_store" using a(2) by simp_all
    show "int (currentLegIndex a) \<ge> int (length (routePath a)) - 1 \<and>
            (\<forall>E sp tr now dsl acc. moveAgent E sp tr now dsl a acc =
               (a\<lparr>timeContinuouslyActive := timeContinuouslyActive a + MINUTES_PER_SIMULATION_STEP\<rparr>, acc))"
      using g moveAgent_guard[OF st] by blast
  qed
  ultimately show ?thesis by blast
qed

theorem delivery_never_happens_witness:
  "reachable exState2 \<and> agents exState2 = [exAgent3] \<and> astatus exAgent3 = to_customer \<and>
   totalOrdersDelivered exState2 = 0 \<and> map ostatus (orders exState2) = [picked_up] \<and>
   int (currentLegIndex exAgent3) \<ge> int (length (routePath exAgent3)) - 1 \<and>
   moveAgent (exEnv (1/2)) 25 1 15 [defaultDarkStoreLocationSim] exAgent3
       \<lparr>updatedOrders = [exOrder3], deliveredOrdersThisStep = [],
        totalDeliveryTimeIncrement = 0, heatmapPointsToAdd = []\<rparr> =
     (exAgent3\<lparr>timeContinuouslyActive := timeContinuouslyActive exAgent3 + MINUTES_PER_SIMULATION_STEP\<rparr>,
      \<lparr>updatedOrders = [exOrder3], deliveredOrdersThisStep = [],
        totalDeliveryTimeIncrement = 0, heatmapPointsToAdd = []\<rparr>)"
proof -
  have s: "agents exState2 = [exAgent3]" "map ostatus (orders exState2) = [picked_up]"
    "astatus exAgent3 = to_customer"
    by (simp_all add: exState2_def exAgent3_def exOrder3_def)
  from delivery_never_happens[OF reachable_exState2] s reachable_exState2
  show ?thesis by simp
qed

text \<open>
  C3. In every reachable state the fatigue factor of every agent lies in \<open>[0.5, 1.0]\<close>; and
  one application of the fatigue model never raises the factor of a busy agent and never
  lowers the factor of an available agent.
\<close>

theorem fatigue_factor_bounds:
  "(reachable s \<longrightarrow> (\<forall>a \<in> set (agents s). 0.5 \<le> fatigueFactor a \<and> fatigueFactor a \<le> 1.0)) \<and>
   (\<forall>i < length as.
      (astatus (as ! i) \<noteq> available \<longrightarrow>
         fatigueFactor (updateAgentFatigueLogic as ! i) \<le> fatigueFactor (as ! i)) \<and>
      (astatus (as ! i) = available \<longrightarrow>
         fatigueFactor (as ! i) \<le> fatigueFactor (updateAgentFatigueLogic as ! i)))"
proof -
  have "reachable s \<longrightarrow> (\<forall>a \<in> set (agents s). 0.5 \<le> fatigueFactor a \<and> fatigueFactor a \<le> 1.0)"
    using reachable_ok[of s] by (auto simp: state_ok_def agent_ok_def)
  moreover have "\<And>b. (astatus b \<noteq> available \<longrightarrow> fatigueFactor (fatigueAgent b) \<le> fatigueFactor b) \<and>
      (astatus b = available \<longrightarrow> fatigueFactor b \<le> fatigueFactor (fatigueAgent b))"
    by (simp add: fatigueAgent_def Let_def)
  ultimately show ?thesis by (simp add: updateAgentFatigueLogic_def)
qed

theorem fatigue_factor_bounds_witness:
  "reachable exState2 \<and> 0.5 \<le> fatigueFactor exAgent3 \<and> fatigueFactor exAgent3 \<le> 1.0 \<and>
   astatus tiredBusy \<noteq> available \<and> astatus tiredIdle = available \<and>
   fatigueFactor (updateAgentFatigueLogic [tiredBusy, tiredIdle] ! 0) \<le> fatigueFactor tiredBusy \<and>
   fatigueFactor tiredIdle \<le> fatigueFactor (updateAgentFatigueLogic [tiredBusy, tiredIdle] ! 1)"
proof -
  have s: "agents exState2 = [exAgent3]" by (simp add: exState2_def)
  have st: "astatus tiredBusy \<noteq> available" "astatus tiredIdle = available"
    by (simp_all add: tiredBusy_def tiredIdle_def exAgent3_def exAgent0_def)
  from fatigue_factor_bounds[of exState2 "[tiredBusy, tiredIdle]"] reachable_exState2 s st
  show ?thesis by (simp add: all_less_two)
qed




text \<open>
  C5. The claim: a zone whose window contains the time of day spawns floor or ceil of its
  expected count in the tick, so more than one order when the expected count exceeds 1.
  \<open>generateOrdersLogic\<close> makes one draw per zone and spawns one order when the draw is below the
  expected count: never more than one order per zone and tick. For a zone of 36 orders per
  hour the expected count of a step is 3 and one order is spawned; and as the window is
  compared with the minutes since the start, not with the time of day, the same zone
  (active 0 to 23 h) spawns nothing at minute 1500, which is 01:00 of the second day.
\<close>

theorem one_order_per_zone_per_tick:
  "\<lfloor>expectedThisStep E rushZone k\<rfloor> = 3 \<and> \<lceil>expectedThisStep E rushZone k\<rceil> = 3 \<and>
   length (newOrders (generateOrdersLogic E 0 ''rush'' 60 [rushProfile] dsl k)) = 1 \<and>
   newOrders (generateOrdersLogic E 0 ''rush'' 1500 [rushProfile] dsl k) = [] \<and>
   length (newOrders (genZone E t dsl z g)) \<le> length (newOrders g) + 1"
proof -
  have e: "expectedThisStep E rushZone k = 3"
    by (simp add: expectedThisStep_def rushZone_def mod_step)
  have w: "newOrders (generateOrdersLogic E 0 ''rush'' 1500 [rushProfile] dsl k) = []"
    by (simp add: generateOrdersLogic_def Let_def rushProfile_def genZone_def rushZone_def)
  show ?thesis
    using genZone_at_most_one[of E t dsl z g] by (simp add: e w rush_generate)
qed

text \<open>
  C6. In every reachable state, for every agent, "status is available", "currentOrder is
  null" and "routePath is empty" are pairwise equivalent; and assignment, movement and
  the fatigue update each keep the equivalence for all agents.
\<close>

theorem idle_equivalence_invariant:
  "(reachable s \<longrightarrow> (\<forall>a \<in> set (agents s). idleEquivalence a)) \<and>
   ((\<forall>a \<in> set as. idleEquivalence a) \<longrightarrow>
      (\<forall>a \<in> set (fst (assignOrdersToAgentsLogic as os sp tr dsl)). idleEquivalence a) \<and>
      (\<forall>a \<in> set (fst (updateAgentsMovementAndStatusLogic E as os sp tr now dsl)). idleEquivalence a) \<and>
      (\<forall>a \<in> set (updateAgentFatigueLogic as). idleEquivalence a))"
proof -
  have "reachable s \<longrightarrow> (\<forall>a \<in> set (agents s). idleEquivalence a)"
    using reachable_ok[of s] by (auto simp: state_ok_def agent_ok_idle)
  moreover have "(\<forall>a \<in> set as. idleEquivalence a) \<longrightarrow>
      (\<forall>a \<in> set (fst (assignOrdersToAgentsLogic as os sp tr dsl)). idleEquivalence a)"
    using assign_idleEquivalence by blast
  moreover have "(\<forall>a \<in> set as. idleEquivalence a) \<longrightarrow>
      (\<forall>a \<in> set (fst (updateAgentsMovementAndStatusLogic E as os sp tr now dsl)). idleEquivalence a)"
    using moveLoop_idleEquivalence by (simp add: updateAgentsMovementAndStatusLogic_def)
  moreover have "(\<forall>a \<in> set as. idleEquivalence a) \<longrightarrow>
      (\<forall>a \<in> set (updateAgentFatigueLogic as). idleEquivalence a)"
    by (simp add: updateAgentFatigueLogic_def fatigueAgent_idleEquivalence)
  ultimately show ?thesis by blast
qed

theorem idle_equivalence_invariant_witness:
  "reachable exState1 \<and> idleEquivalence exAgent2 \<and> idleEquivalence exAgent0 \<and>
   idleEquivalence exAgent1 \<and>
   list_all idleEquivalence
     (fst (updateAgentsMovementAndStatusLogic (exEnv 0) [exAgent0] [exOrder0] 25 1 5
             [defaultDarkStoreLocationSim])) \<and>
   list_all idleEquivalence (updateAgentFatigueLogic [exAgent0])"
proof -
  have s: "agents exState1 = [exAgent2]" by (simp add: exState1_def)
  have i0: "\<forall>a \<in> set [exAgent0]. idleEquivalence a"
    by (simp add: idleEquivalence_def exAgent0_def)
  from idle_equivalence_invariant[of exState1 "[exAgent0]" "[exOrder0]" 25 1
         "[defaultDarkStoreLocationSim]" "exEnv 0" 5] reachable_exState1 s i0
  show ?thesis by (simp add: ex_assign list_all_iff)
qed

text \<open>
  C7. The claim: an agent has an order iff it is not available, and its route is non-empty
  iff its status is \<open>to_store\<close> or \<open>to_customer\<close>; in particular an agent at the store has
  an empty route. The route is kept on arrival at the store: the agent of the reachable
  state \<open>exState1\<close> is at the store with a route of 7 waypoints.
\<close>

theorem at_store_agent_keeps_route:
  "reachable exState1 \<and> exAgent2 \<in> set (agents exState1) \<and>
   \<not> (routePath exAgent2 \<noteq> [] \<longleftrightarrow> astatus exAgent2 = to_store \<or> astatus exAgent2 = to_customer)"
  using reachable_exState1
  by (simp add: exState1_def exAgent2_def exAgent1_def exRoute_def)

text \<open>
  C7, as the code has it: in every reachable state an agent has an order iff it is not
  available, and its route is non-empty iff its status is \<open>to_store\<close>, \<open>at_store\<close> or
  \<open>to_customer\<close>.
\<close>

theorem order_and_route_presence:
  assumes "reachable s" "a \<in> set (agents s)"
  shows "(currentOrder a \<noteq> None \<longleftrightarrow> astatus a \<noteq> available) \<and>
         (routePath a \<noteq> [] \<longleftrightarrow> astatus a = to_store \<or> astatus a = at_store \<or> astatus a = to_customer)"
proof -
  from assms have "agent_ok a" using reachable_ok[of s] by (simp add: state_ok_def)
  then show ?thesis by (cases "astatus a") (auto simp: agent_ok_def)
qed

theorem order_and_route_presence_witness:
  "reachable exState1 \<and> exAgent2 \<in> set (agents exState1) \<and>
   currentOrder exAgent2 \<noteq> None \<and> astatus exAgent2 = at_store \<and> routePath exAgent2 \<noteq> []"
proof -
  have s: "exAgent2 \<in> set (agents exState1)" "astatus exAgent2 = at_store"
    by (simp_all add: exState1_def exAgent2_def)
  from order_and_route_presence[OF reachable_exState1 s(1)] s reachable_exState1
  show ?thesis by simp
qed

text \<open>
  C8. In every reachable state, for every order, the timestamps that are set satisfy
  \<open>timePlaced \<le> storeArrivalTime \<le> customerArrivalTime\<close>, and a delivered order has
  \<open>deliveryTime = customerArrivalTime - timePlaced\<close>.

  In a reachable state the law holds in this form: the order was placed by the current
  time, its store arrival time, when set, lies between the placement and the current
  time, and no order has a customer arrival time, a delivery time or the status
  \<open>delivered\<close>, since no run reaches the delivery branch; the parts of the law about the
  customer arrival have no instance there.

  The law (\<open>timestampsOrdered\<close>) is also kept by each function that writes orders, on every
  input that satisfies it, deliveries included: by the movement engine run at a time
  \<open>now'\<close> not before \<open>now\<close>, provided no agent on its way to a store holds an order that
  already has a customer arrival time; by the assigner; and the orders that the generator
  places at time \<open>t\<close> satisfy it at \<open>t\<close>.
\<close>

theorem order_timestamps:
  "(reachable s \<longrightarrow>
      (\<forall>x \<in> set (orders s).
         timePlaced x \<le> currentSimulationTime s \<and>
         (case storeArrivalTime x of
            None \<Rightarrow> True
          | Some t \<Rightarrow> timePlaced x \<le> t \<and> t \<le> currentSimulationTime s) \<and>
         customerArrivalTime x = None \<and> deliveryTime x = None \<and> ostatus x \<noteq> delivered)) \<and>
   (list_all (timestampsOrdered now) os \<and> now \<le> now' \<and> storeRunsOpen as os \<longrightarrow>
      list_all (timestampsOrdered now')
        (updatedOrders (snd (updateAgentsMovementAndStatusLogic E as os sp tr now' dsl)))) \<and>
   (list_all (timestampsOrdered now) os \<longrightarrow>
      list_all (timestampsOrdered now) (snd (assignOrdersToAgentsLogic as os sp tr dsl))) \<and>
   list_all (timestampsOrdered t) (newOrders (generateOrdersLogic E c profileId t profiles dsl k))"
proof -
  have "reachable s \<longrightarrow>
      (\<forall>x \<in> set (orders s).
         timePlaced x \<le> currentSimulationTime s \<and>
         (case storeArrivalTime x of
            None \<Rightarrow> True
          | Some t \<Rightarrow> timePlaced x \<le> t \<and> t \<le> currentSimulationTime s) \<and>
         customerArrivalTime x = None \<and> deliveryTime x = None \<and> ostatus x \<noteq> delivered)"
    using reachable_ok[of s] by (auto simp: state_ok_def order_ok_def split: option.splits)
  moreover have "list_all (timestampsOrdered now) os \<and> now \<le> now' \<and> storeRunsOpen as os \<longrightarrow>
      list_all (timestampsOrdered now')
        (updatedOrders (snd (updateAgentsMovementAndStatusLogic E as os sp tr now' dsl)))"
    using movement_stamps by blast
  moreover have "list_all (timestampsOrdered now) os \<longrightarrow>
      list_all (timestampsOrdered now) (snd (assignOrdersToAgentsLogic as os sp tr dsl))"
    using assign_stamps by blast
  moreover have
    "list_all (timestampsOrdered t) (newOrders (generateOrdersLogic E c profileId t profiles dsl k))"
    by (rule generate_stamps)
  ultimately show ?thesis by blast
qed

theorem order_timestamps_witness:
  "reachable exState1 \<and> orders exState1 = [exOrder2] \<and> currentSimulationTime exState1 = 5 \<and>
   timePlaced exOrder2 = 5 \<and> storeArrivalTime exOrder2 = Some 5 \<and>
   customerArrivalTime exOrder2 = None \<and> deliveryTime exOrder2 = None \<and>
   ostatus exOrder2 = assigned \<and>
   list_all (timestampsOrdered 20) [doneOrder, carriedOrder, awaitedOrder] \<and>
   storeRunsOpen [courier, fetcher] [doneOrder, carriedOrder, awaitedOrder] \<and>
   updatedOrders (snd (updateAgentsMovementAndStatusLogic (exEnv 0) [courier, fetcher]
       [doneOrder, carriedOrder, awaitedOrder] 25 1 25 [defaultDarkStoreLocationSim])) =
     [doneOrder, deliveredOrder, fetchedOrder] \<and>
   list_all (timestampsOrdered 25) [doneOrder, deliveredOrder, fetchedOrder] \<and>
   timePlaced deliveredOrder = 10 \<and> storeArrivalTime deliveredOrder = Some 15 \<and>
   customerArrivalTime deliveredOrder = Some 25 \<and> deliveryTime deliveredOrder = Some 15 \<and>
   ostatus deliveredOrder = delivered \<and>
   timePlaced fetchedOrder = 20 \<and> storeArrivalTime fetchedOrder = Some 25 \<and>
   snd (assignOrdersToAgentsLogic [exAgent0] [exOrder0] 25 1 [defaultDarkStoreLocationSim]) = [exOrder1] \<and>
   timestampsOrdered 5 exOrder0 \<and> timestampsOrdered 5 exOrder1 \<and>
   newOrders (generateOrdersLogic (exEnv 0) 0 ''default_uniform_ccr'' 5 []
                [defaultDarkStoreLocationSim] 0) = [exOrder0]"
proof -
  have s: "orders exState1 = [exOrder2]" "currentSimulationTime exState1 = 5"
    "timePlaced exOrder2 = 5" "storeArrivalTime exOrder2 = Some 5" "ostatus exOrder2 = assigned"
    by (simp_all add: exState1_def exState0_def exOrder2_def exOrder1_def exOrder0_def)
  have d: "timePlaced deliveredOrder = 10" "storeArrivalTime deliveredOrder = Some 15"
    "customerArrivalTime deliveredOrder = Some 25" "deliveryTime deliveredOrder = Some 15"
    "ostatus deliveredOrder = delivered"
    "timePlaced fetchedOrder = 20" "storeArrivalTime fetchedOrder = Some 25"
    by (simp_all add: deliveredOrder_def carriedOrder_def fetchedOrder_def awaitedOrder_def
        exOrder0_def)
  have g: "timestampsOrdered 5 exOrder0"
    by (simp add: timestampsOrdered_def exOrder0_def)
  from order_timestamps[of exState1 20 "[doneOrder, carriedOrder, awaitedOrder]" 25
         "[courier, fetcher]" "exEnv 0" 25 1 "[defaultDarkStoreLocationSim]" 5 0
         "''default_uniform_ccr''" "[]" 0]
       order_timestamps[of exState1 5 "[exOrder0]" 5 "[exAgent0]" "exEnv 0" 25 1
         "[defaultDarkStoreLocationSim]" 5 0 "''default_uniform_ccr''" "[]" 0]
       reachable_exState1 s d g ex_board_ok
  show ?thesis by (simp add: ex_board ex_assign ex_generate)
qed

text \<open>
  C9. The claim: \<open>getRandomPointInCcr\<close> stops after at most 200 samples of the bounding box.
  With the bounds of the region and every draw 1/2 it reads 402 numbers of the stream,
  that is 201 samples: the last one is drawn before the counter is compared with
  \<open>MAX_ATTEMPTS\<close> and is not tested.
\<close>

theorem sampling_draws_201_points:
  "\<not> snd (getRandomPointInCcr (exEnv (1/2)) 0) \<le> 0 + 2 * MAX_ATTEMPTS"
  by (simp add: getRandomPointInCcr_default[OF ccrBounds_exEnv] MAX_ATTEMPTS_def)

text \<open>
  C9, as the code has it: for every random stream and every bounding box the function
  returns after \<open>n\<close> samples with \<open>1 \<le> n \<le> 201\<close>, the samples before the \<open>n\<close>-th having failed
  the test; either \<open>n = 201\<close> and the result is the default dark-store location (200 samples
  were tested), or \<open>n \<le> 200\<close> and the result is the \<open>n\<close>-th sample, which satisfies
  \<open>isPointInPolygon\<close> for the ring. The function is total: no case raises.
\<close>

theorem sampling_bounded:
  "\<exists>n. 1 \<le> n \<and> n \<le> MAX_ATTEMPTS + 1 \<and> snd (getRandomPointInCcr E k) = k + 2 * n \<and>
       (\<forall>j < n - 1. \<not> isPointInPolygon (sampleAt E (k + 2 * j)) ccrRing) \<and>
       ((n = MAX_ATTEMPTS + 1 \<and> fst (getRandomPointInCcr E k) = defaultDarkStoreLocationSim) \<or>
        (n \<le> MAX_ATTEMPTS \<and> fst (getRandomPointInCcr E k) = sampleAt E (k + 2 * (n - 1)) \<and>
         isPointInPolygon (fst (getRandomPointInCcr E k)) ccrRing))"
  using ccrLoop_result[of 0 E k] by (simp add: getRandomPointInCcr_def)

theorem sampling_bounded_witness:
  "snd (getRandomPointInCcr (exEnv (1/2)) 7) \<le> 7 + 2 * (MAX_ATTEMPTS + 1) \<and>
   (fst (getRandomPointInCcr (exEnv (1/2)) 7) = defaultDarkStoreLocationSim \<or>
    isPointInPolygon (fst (getRandomPointInCcr (exEnv (1/2)) 7)) ccrRing)"
  using sampling_bounded[of "exEnv (1/2)" 7] by auto

text \<open>
  C10. \<open>simplifiedSimulationRun\<close> returns \<open>generatedOrders \<ge> 1\<close> for every input: it is the
  number of generated orders, or 1 when there is none. A run without orders reports one
  generated order, no delivered order and so a completion rate of 0; and the divisor of the
  completion rate over any non-empty list of runs is positive.
\<close>

theorem generated_orders_at_least_one:
  "1 \<le> generatedOrders (simplifiedSimulationRun E cps n coords d m sla k) \<and>
   generatedOrders (simplifiedSimulationRun E cps n coords d m sla k) =
     max 1 (length (gOrders (generatedOf E cps coords d m k))) \<and>
   (gOrders (generatedOf E cps coords d m k) = [] \<longrightarrow>
      generatedOrders (simplifiedSimulationRun E cps n coords d m sla k) = 1 \<and>
      deliveredOrders (simplifiedSimulationRun E cps n coords d m sla k) = 0 \<and>
      completionRate [simplifiedSimulationRun E cps n coords d m sla k] = 0) \<and>
   (args \<noteq> [] \<longrightarrow>
      0 < (\<Sum>a \<leftarrow> args. generatedOrders (simplifiedSimulationRun (fst a) cps n coords d m sla (snd a))))"
proof -
  have g: "generatedOrders (simplifiedSimulationRun E cps n coords d m sla k) =
     max 1 (length (gOrders (generatedOf E cps coords d m k)))"
    by (rule run_generated)
  have z: "gOrders (generatedOf E cps coords d m k) = [] \<longrightarrow>
      generatedOrders (simplifiedSimulationRun E cps n coords d m sla k) = 1 \<and>
      deliveredOrders (simplifiedSimulationRun E cps n coords d m sla k) = 0 \<and>
      completionRate [simplifiedSimulationRun E cps n coords d m sla k] = 0"
    by (simp add: run_generated run_delivered_none completionRate_def)
  have s: "args \<noteq> [] \<longrightarrow>
      0 < (\<Sum>a \<leftarrow> args. generatedOrders (simplifiedSimulationRun (fst a) cps n coords d m sla (snd a)))"
    using sum_list_pos[of args "\<lambda>a. generatedOrders (simplifiedSimulationRun (fst a) cps n coords d m sla (snd a))"]
    by (simp add: run_generated)
  from g z s show ?thesis by simp
qed

theorem generated_orders_at_least_one_witness:
  "gOrders (generatedOf (exEnv (1/2)) [] defaultDarkStoreLocationSim ''default_opt_uniform_ccr'' 0 0) = [] \<and>
   generatedOrders (simplifiedSimulationRun (exEnv (1/2)) [] 1 defaultDarkStoreLocationSim
                      ''default_opt_uniform_ccr'' 0 25 0) = 1 \<and>
   deliveredOrders (simplifiedSimulationRun (exEnv (1/2)) [] 1 defaultDarkStoreLocationSim
                      ''default_opt_uniform_ccr'' 0 25 0) = 0 \<and>
   completionRate [simplifiedSimulationRun (exEnv (1/2)) [] 1 defaultDarkStoreLocationSim
                      ''default_opt_uniform_ccr'' 0 25 0] = 0 \<and>
   0 < (\<Sum>a \<leftarrow> [(exEnv (1/2), 0::nat)].
          generatedOrders (simplifiedSimulationRun (fst a) [] 1 defaultDarkStoreLocationSim
                      ''default_opt_uniform_ccr'' 0 25 (snd a)))"
proof -
  have e: "gOrders (generatedOf (exEnv (1/2)) [] defaultDarkStoreLocationSim ''default_opt_uniform_ccr'' 0 0) = []"
    by (simp add: generatedOf_no_horizon)
  from generated_orders_at_least_one[of "exEnv (1/2)" "[]" 1 defaultDarkStoreLocationSim
         "''default_opt_uniform_ccr''" 0 25 0 "[(exEnv (1/2), 0)]"] e
  show ?thesis by simp
qed

end
